theory Spec2Isabelle
  imports Main
begin

section \<open>The cache engine of react-query-lite\<close>

text \<open>
  The JavaScript module keeps its data in mutable objects that refer to each other: the
  client holds an array of Query objects, a Query holds an array of Observer objects, a
  pending timer holds the Query it will drop, and a suspended fetch holds the Query it
  will update. Objects are compared by identity (\<open>!==\<close>). The model therefore uses an
  explicit store: a Query is addressed by a reference, the store maps references to the
  Query's fields, and every operation takes the state of the whole program and returns
  the new one.

  The host is part of that state: the tasks pending in \<open>setTimeout\<close>, the async
  functions suspended at their \<open>await\<close>, and the completion of each promise. What the
  host decides (the time \<open>Date.now()\<close> returns, whether \<open>queryFn()\<close> throws at once, how
  the awaited value settles, when a timer runs) is an argument of the operation or an
  event of its own.

  \<open>queryFn\<close> and the listener callbacks are functions of the caller: a call of either is
  recorded in a trace, and \<open>queryFn\<close> is taken not to call back into the cache. For the
  listeners there are two layers. The definitions that come first are the code for
  listeners whose \<open>notify\<close> returns at once. The subsection on listeners that act runs
  callbacks that call the Query back or throw; the two layers agree when no callback
  does either.
\<close>

type_synonym qref = nat
type_synonym oref = nat
type_synonym timer = nat
type_synonym handle = nat
type_synonym callback = nat

subsection \<open>Query state and its four updaters\<close>

datatype status = Loading | Success | Error

record 'v query_state =
  status :: status
  isFetching :: bool
  data :: "'v option"
  error :: "'v option"
  lastUpdated :: "int option"

text \<open>The object literal of \<open>createQuery\<close>; it has no \<open>lastUpdated\<close> property.\<close>

definition initial_state :: "'v query_state" where
  "initial_state =
     \<lparr>status = Loading, isFetching = True, data = None, error = None, lastUpdated = None\<rparr>"

text \<open>The four arrow functions handed to \<open>setState\<close> inside \<open>fetch\<close>, in source order.\<close>

definition start_updater :: "'v query_state \<Rightarrow> 'v query_state" where
  "start_updater old = old\<lparr>isFetching := True, error := None\<rparr>"

definition success_updater :: "int \<Rightarrow> 'v \<Rightarrow> 'v query_state \<Rightarrow> 'v query_state" where
  "success_updater now d old = old\<lparr>status := Success, lastUpdated := Some now, data := Some d\<rparr>"

definition error_updater :: "'v \<Rightarrow> 'v query_state \<Rightarrow> 'v query_state" where
  "error_updater e old = old\<lparr>status := Error, error := Some e\<rparr>"

definition settle_updater :: "'v query_state \<Rightarrow> 'v query_state" where
  "settle_updater old = old\<lparr>isFetching := False\<rparr>"

subsection \<open>Objects and the program state\<close>

text \<open>
  \<open>cacheTime\<close> is not a property of the JavaScript object: it is the variable the
  closures of \<open>createQuery\<close> capture, fixed when the Query is created.
\<close>

record ('k, 'h, 'f, 'v) query =
  queryKey :: 'k
  queryFn :: 'f
  queryHash :: 'h
  promise :: "handle option"
  subscribers :: "oref list"
  gcTimeout :: "timer option"
  state :: "'v query_state"
  cacheTime :: int

text \<open>How a block of JavaScript ends: normally, or by throwing a value.\<close>

datatype 'v completion = Normal | Throw 'v

record ('k, 'h, 'f, 'v) world =
  queries :: "qref list"
  heap :: "qref \<Rightarrow> ('k, 'h, 'f, 'v) query option"
  next_ref :: qref
  listener :: "oref \<Rightarrow> callback option"
  timers :: "(timer \<times> int \<times> qref) list"
  next_timer :: timer
  awaiting :: "(handle \<times> qref) list"
  outcome :: "handle \<Rightarrow> 'v completion option"
  next_handle :: handle
  notified :: "(oref \<times> callback option) list"
  invoked :: "(qref \<times> 'f) list"

text \<open>\<open>new QueryClient()\<close> in a fresh host.\<close>

definition new_world :: "('k, 'h, 'f, 'v) world" where
  "new_world =
     \<lparr>queries = [], heap = (\<lambda>_. None), next_ref = 0, listener = (\<lambda>_. None),
      timers = [], next_timer = 0, awaiting = [], outcome = (\<lambda>_. None), next_handle = 0,
      notified = [], invoked = []\<rparr>"

text \<open>
  A write to a property of a Query object. A reference handed out by the program is never
  dangling, so the \<open>None\<close> branch is not taken on a state the program reaches.
\<close>

definition modify :: "qref \<Rightarrow> (('k, 'h, 'f, 'v) query \<Rightarrow> ('k, 'h, 'f, 'v) query) \<Rightarrow>
    ('k, 'h, 'f, 'v) world \<Rightarrow> ('k, 'h, 'f, 'v) world" where
  "modify q f w = (case heap w q of None \<Rightarrow> w | Some x \<Rightarrow> w\<lparr>heap := (heap w)(q \<mapsto> f x)\<rparr>)"

subsection \<open>\<open>setState\<close>\<close>

text \<open>
  \<open>query.state = updater(query.state)\<close>, then \<open>forEach\<close> over the subscriber array in
  array order, calling the \<open>notify\<close> property each Observer has at that moment. Here
  every \<open>notify\<close> returns at once; \<open>setState_with\<close> runs callbacks that act.
\<close>

definition setState :: "qref \<Rightarrow> ('v query_state \<Rightarrow> 'v query_state) \<Rightarrow>
    ('k, 'h, 'f, 'v) world \<Rightarrow> ('k, 'h, 'f, 'v) world" where
  "setState q updater w =
     (case heap w q of
        None \<Rightarrow> w
      | Some x \<Rightarrow>
          w\<lparr>heap := (heap w)(q \<mapsto> x\<lparr>state := updater (state x)\<rparr>),
            notified := notified w @ map (\<lambda>s. (s, listener w s)) (subscribers x)\<rparr>)"

subsection \<open>\<open>fetch\<close>\<close>

text \<open>
  \<open>try { body } catch (e) { handler } finally { finalizer }\<close>: the handler runs when the
  body throws, the finalizer always runs, and a throw of the finalizer replaces the
  completion reached before it.
\<close>

definition try_catch_finally ::
  "('w \<Rightarrow> 'v completion \<times> 'w) \<Rightarrow> ('v \<Rightarrow> 'w \<Rightarrow> 'v completion \<times> 'w) \<Rightarrow>
   ('w \<Rightarrow> 'v completion \<times> 'w) \<Rightarrow> 'w \<Rightarrow> 'v completion \<times> 'w" where
  "try_catch_finally body handler finalizer w =
     (let (c1, w1) = body w;
          (c2, w2) = (case c1 of Normal \<Rightarrow> (Normal, w1) | Throw e \<Rightarrow> handler e w1);
          (c3, w3) = finalizer w2
      in (case c3 of Normal \<Rightarrow> (c2, w3) | Throw e \<Rightarrow> (Throw e, w3)))"

text \<open>
  The body of \<open>try\<close> from the point where \<open>await\<close> delivers: the awaited promise
  rejected with \<open>e\<close> (\<open>Inl e\<close>, thrown at the \<open>await\<close>), or it is fulfilled with \<open>d\<close>
  (\<open>Inr d\<close>) and the success update runs, \<open>now\<close> being what \<open>Date.now()\<close> returns there.
\<close>

definition after_await :: "qref \<Rightarrow> int \<Rightarrow> 'v + 'v \<Rightarrow>
    ('k, 'h, 'f, 'v) world \<Rightarrow> 'v completion \<times> ('k, 'h, 'f, 'v) world" where
  "after_await q now r w =
     (case r of
        Inl e \<Rightarrow> (Throw e, w)
      | Inr d \<Rightarrow> (Normal, setState q (success_updater now d) w))"

text \<open>
  The \<open>try\<close> statement of the async function, for a given rest of its body. With
  listeners that return at once the \<open>setState\<close> of \<open>catch\<close> and of \<open>finally\<close> completes
  normally; \<open>finish_with\<close> is the statement for callbacks that throw.
\<close>

definition fetch_try :: "qref \<Rightarrow>
    (('k, 'h, 'f, 'v) world \<Rightarrow> 'v completion \<times> ('k, 'h, 'f, 'v) world) \<Rightarrow>
    ('k, 'h, 'f, 'v) world \<Rightarrow> 'v completion \<times> ('k, 'h, 'f, 'v) world" where
  "fetch_try q body =
     try_catch_finally body
       (\<lambda>e w. (Normal, setState q (error_updater e) w))
       (\<lambda>w. (Normal, setState q settle_updater (modify q (\<lambda>x. x\<lparr>promise := None\<rparr>) w)))"

text \<open>
  \<open>query.fetch()\<close>. With no handle stored, the async function runs up to its first
  suspension: the start update, then the call \<open>queryFn()\<close>. \<open>thrown = None\<close>: the call
  returns, the function suspends at \<open>await\<close> and its pending promise is the value of the
  call expression. \<open>thrown = Some e\<close>: the call throws \<open>e\<close> inside \<open>try\<close>, so \<open>catch\<close> and
  \<open>finally\<close> run before the async function returns, and its promise is already
  completed when it becomes the value of the call expression. In both cases the
  assignment \<open>query.promise = ...\<close> happens after the call expression is evaluated.
  The result is \<open>query.promise\<close> as read by \<open>return\<close>.
\<close>

definition fetch :: "'v option \<Rightarrow> qref \<Rightarrow> ('k, 'h, 'f, 'v) world \<Rightarrow>
    handle option \<times> ('k, 'h, 'f, 'v) world" where
  "fetch thrown q w =
     (case heap w q of
        None \<Rightarrow> (None, w)
      | Some x \<Rightarrow>
          (case promise x of
             Some h \<Rightarrow> (Some h, w)
           | None \<Rightarrow>
               let w1 = setState q start_updater w;
                   w2 = w1\<lparr>invoked := invoked w1 @ [(q, queryFn x)]\<rparr>;
                   h = next_handle w2
               in (case thrown of
                     None \<Rightarrow>
                       (Some h,
                        modify q (\<lambda>x. x\<lparr>promise := Some h\<rparr>)
                          (w2\<lparr>next_handle := Suc h, awaiting := awaiting w2 @ [(h, q)]\<rparr>))
                   | Some e \<Rightarrow>
                       let (c, w3) = fetch_try q (\<lambda>w. (Throw e, w)) w2
                       in (Some h,
                           modify q (\<lambda>x. x\<lparr>promise := Some h\<rparr>)
                             (w3\<lparr>next_handle := Suc h, outcome := (outcome w3)(h \<mapsto> c)\<rparr>)))))"

text \<open>
  The host resumes the async function suspended on handle \<open>h\<close>: the awaited value
  settled as \<open>r\<close> at time \<open>now\<close>. The rest of the function is the \<open>try\<close> statement, and its
  completion completes the promise \<open>h\<close>. A handle that is not suspended has nothing to
  resume.
\<close>

definition settle :: "handle \<Rightarrow> int \<Rightarrow> 'v + 'v \<Rightarrow>
    ('k, 'h, 'f, 'v) world \<Rightarrow> ('k, 'h, 'f, 'v) world" where
  "settle h now r w =
     (case map_of (awaiting w) h of
        None \<Rightarrow> w
      | Some q \<Rightarrow>
          let (c, w1) = fetch_try q (after_await q now r)
                          (w\<lparr>awaiting := filter (\<lambda>p. fst p \<noteq> h) (awaiting w)\<rparr>)
          in w1\<lparr>outcome := (outcome w1)(h \<mapsto> c)\<rparr>)"

subsection \<open>Subscription and garbage collection\<close>

text \<open>
  \<open>scheduleGC\<close>: \<open>setTimeout\<close> registers a new task, due \<open>cacheTime\<close> after \<open>now\<close>, and
  its handle overwrites \<open>gcTimeout\<close>. Nothing is cleared. (The host's clamping of a
  negative or oversized delay is not modelled.)
\<close>

definition scheduleGC :: "int \<Rightarrow> qref \<Rightarrow> ('k, 'h, 'f, 'v) world \<Rightarrow> ('k, 'h, 'f, 'v) world" where
  "scheduleGC now q w =
     (case heap w q of
        None \<Rightarrow> w
      | Some x \<Rightarrow>
          let t = next_timer w
          in modify q (\<lambda>x. x\<lparr>gcTimeout := Some t\<rparr>)
               (w\<lparr>timers := timers w @ [(t, now + cacheTime x, q)], next_timer := Suc t\<rparr>))"

text \<open>
  \<open>unscheduleGC\<close>: \<open>clearTimeout(query.gcTimeout)\<close>. The host drops the task with that
  handle if it is pending; \<open>null\<close> and the handle of a task that ran or was cleared are
  ignored. \<open>gcTimeout\<close> keeps its value.
\<close>

definition clearTimeout :: "timer option \<Rightarrow> ('k, 'h, 'f, 'v) world \<Rightarrow> ('k, 'h, 'f, 'v) world" where
  "clearTimeout t w =
     (case t of
        None \<Rightarrow> w
      | Some i \<Rightarrow> w\<lparr>timers := filter (\<lambda>p. fst p \<noteq> i) (timers w)\<rparr>)"

definition unscheduleGC :: "qref \<Rightarrow> ('k, 'h, 'f, 'v) world \<Rightarrow> ('k, 'h, 'f, 'v) world" where
  "unscheduleGC q w =
     (case heap w q of
        None \<Rightarrow> w
      | Some x \<Rightarrow> clearTimeout (gcTimeout x) w)"

text \<open>\<open>query.subscribe(subscriber)\<close>: push, then \<open>unscheduleGC\<close>.\<close>

definition subscribe :: "qref \<Rightarrow> oref \<Rightarrow> ('k, 'h, 'f, 'v) world \<Rightarrow> ('k, 'h, 'f, 'v) world" where
  "subscribe q s w = unscheduleGC q (modify q (\<lambda>x. x\<lparr>subscribers := subscribers x @ [s]\<rparr>) w)"

text \<open>
  The closure \<open>subscribe\<close> returns, called at time \<open>now\<close>: every entry identical to the
  subscriber is filtered out, and \<open>scheduleGC\<close> runs when the array is then empty.
\<close>

definition unsubscribe :: "int \<Rightarrow> qref \<Rightarrow> oref \<Rightarrow>
    ('k, 'h, 'f, 'v) world \<Rightarrow> ('k, 'h, 'f, 'v) world" where
  "unsubscribe now q s w =
     (let w1 = modify q (\<lambda>x. x\<lparr>subscribers := filter (\<lambda>d. d \<noteq> s) (subscribers x)\<rparr>) w
      in (case heap w1 q of
            None \<Rightarrow> w1
          | Some x \<Rightarrow> if subscribers x = [] then scheduleGC now q w1 else w1))"

text \<open>
  The task scheduled by \<open>scheduleGC\<close> runs: the host takes it off its pending tasks and
  the callback filters the Query out of \<open>client.queries\<close>. A timer that is not pending
  does not run.
\<close>

definition fire :: "timer \<Rightarrow> ('k, 'h, 'f, 'v) world \<Rightarrow> ('k, 'h, 'f, 'v) world" where
  "fire t w =
     (case map_of (timers w) t of
        None \<Rightarrow> w
      | Some (due, q) \<Rightarrow>
          w\<lparr>timers := filter (\<lambda>p. fst p \<noteq> t) (timers w),
            queries := filter (\<lambda>d. d \<noteq> q) (queries w)\<rparr>)"

text \<open>The clock reaches \<open>now\<close>: every pending task that is due by then runs, in
  the order of scheduling (the callbacks only filter the registry, so the order does not
  change the result).\<close>

definition advance :: "int \<Rightarrow> ('k, 'h, 'f, 'v) world \<Rightarrow> ('k, 'h, 'f, 'v) world" where
  "advance now w =
     fold fire (map fst (filter (\<lambda>(t, due, q). due \<le> now) (timers w))) w"

subsection \<open>The client's registry\<close>

text \<open>
  The options object \<open>{queryKey, queryFn, staleTime, cacheTime}\<close>; a property that is
  left out or \<open>undefined\<close> is \<open>None\<close>.
\<close>

record ('k, 'f) options =
  opt_queryKey :: 'k
  opt_queryFn :: 'f
  opt_staleTime :: "int option"
  opt_cacheTime :: "int option"

text \<open>
  \<open>createQuery\<close>, with the default of its destructuring pattern. \<open>stringify\<close> stands for
  the host's \<open>JSON.stringify\<close>.
\<close>

definition createQuery :: "('k \<Rightarrow> 'h) \<Rightarrow> ('k, 'f) options \<Rightarrow> ('k, 'h, 'f, 'v) query" where
  "createQuery stringify opts =
     \<lparr>queryKey = opt_queryKey opts,
      queryFn = opt_queryFn opts,
      queryHash = stringify (opt_queryKey opts),
      promise = None,
      subscribers = [],
      gcTimeout = None,
      state = initial_state,
      cacheTime = (case opt_cacheTime opts of None \<Rightarrow> 5 * 60 * 1000 | Some c \<Rightarrow> c)\<rparr>"

text \<open>
  \<open>getQuery\<close>: \<open>find\<close> returns the first Query of the array whose hash is identical to
  the hash of the key; when there is none, a new object is created and pushed.
\<close>

definition getQuery :: "('k \<Rightarrow> 'h) \<Rightarrow> ('k, 'f) options \<Rightarrow> ('k, 'h, 'f, 'v) world \<Rightarrow>
    qref \<times> ('k, 'h, 'f, 'v) world" where
  "getQuery stringify opts w =
     (let queryHash' = stringify (opt_queryKey opts)
      in (case find (\<lambda>d. map_option queryHash (heap w d) = Some queryHash') (queries w) of
            Some q \<Rightarrow> (q, w)
          | None \<Rightarrow>
              let q = next_ref w
              in (q, w\<lparr>heap := (heap w)(q \<mapsto> createQuery stringify opts),
                       next_ref := Suc q,
                       queries := queries w @ [q]\<rparr>)))"

text \<open>
  The \<open>find\<close> of \<open>getQuery\<close> for a hash: the Query the registry holds for it, if any.
\<close>

definition registered :: "'h \<Rightarrow> ('k, 'h, 'f, 'v) world \<Rightarrow> qref option" where
  "registered hsh w = find (\<lambda>d. map_option queryHash (heap w d) = Some hsh) (queries w)"

text \<open>
  References are handed out in increasing order: those in the registry are below the
  next one to be handed out.
\<close>

definition refs_allocated :: "('k, 'h, 'f, 'v) world \<Rightarrow> bool" where
  "refs_allocated w = list_all (\<lambda>d. d < next_ref w) (queries w)"

subsection \<open>Observer\<close>

text \<open>
  The constants an Observer's closures capture: its own identity, its Query and
  \<open>staleTime\<close>. Its mutable \<open>notify\<close> property is \<open>listener\<close> in the program state.
\<close>

record observer =
  self :: oref
  query_of :: qref
  staleTime :: int

text \<open>
  \<open>createQueryObserver\<close>, with the default of its destructuring pattern; \<open>s\<close> is the
  identity of the new object, whose \<open>notify\<close> is the empty function.
\<close>

definition createQueryObserver :: "('k \<Rightarrow> 'h) \<Rightarrow> oref \<Rightarrow> ('k, 'f) options \<Rightarrow>
    ('k, 'h, 'f, 'v) world \<Rightarrow> observer \<times> ('k, 'h, 'f, 'v) world" where
  "createQueryObserver stringify s opts w =
     (let staleTime' = (case opt_staleTime opts of None \<Rightarrow> 0 | Some t \<Rightarrow> t);
          (q, w1) = getQuery stringify (opts\<lparr>opt_staleTime := None\<rparr>) w
      in (\<lparr>self = s, query_of = q, staleTime = staleTime'\<rparr>, w1\<lparr>listener := (listener w1)(s := None)\<rparr>))"

text \<open>
  JavaScript's \<open>!x\<close> for a property that is \<open>undefined\<close> or an integer: true for
  \<open>undefined\<close> and for \<open>0\<close>.
\<close>

definition falsy :: "int option \<Rightarrow> bool" where
  "falsy x = (case x of None \<Rightarrow> True | Some n \<Rightarrow> n = 0)"

text \<open>
  The condition of \<open>observer.fetch\<close>. \<open>||\<close> evaluates its right operand only when the left
  one is false, so the subtraction sees a number.
\<close>

definition is_stale :: "int \<Rightarrow> int \<Rightarrow> 'v query_state \<Rightarrow> bool" where
  "is_stale staleTime' now st =
     (falsy (lastUpdated st) \<or>
      (case lastUpdated st of None \<Rightarrow> False | Some t \<Rightarrow> now - t > staleTime'))"

text \<open>\<open>observer.fetch()\<close> at time \<open>now\<close>; \<open>thrown\<close> is passed on to \<open>query.fetch\<close>.\<close>

definition observer_fetch :: "'v option \<Rightarrow> int \<Rightarrow> observer \<Rightarrow>
    ('k, 'h, 'f, 'v) world \<Rightarrow> ('k, 'h, 'f, 'v) world" where
  "observer_fetch thrown now ob w =
     (case heap w (query_of ob) of
        None \<Rightarrow> w
      | Some x \<Rightarrow>
          if is_stale (staleTime ob) now (state x)
          then snd (fetch thrown (query_of ob) w)
          else w)"

text \<open>
  \<open>observer.subscribe(callback)\<close>: store the callback, subscribe to the Query, run the
  gated fetch. The result (the Query's unsubscribe closure) is \<open>unsubscribe\<close> applied to
  the Query and the Observer.
\<close>

definition observer_subscribe :: "'v option \<Rightarrow> int \<Rightarrow> observer \<Rightarrow> callback \<Rightarrow>
    ('k, 'h, 'f, 'v) world \<Rightarrow> ('k, 'h, 'f, 'v) world" where
  "observer_subscribe thrown now ob cb w =
     observer_fetch thrown now ob
       (subscribe (query_of ob) (self ob) (w\<lparr>listener := (listener w)(self ob := Some cb)\<rparr>))"


text \<open>\<open>observer.getResult()\<close>: the state of the Observer's Query.\<close>

definition getResult :: "observer \<Rightarrow> ('k, 'h, 'f, 'v) world \<Rightarrow> 'v query_state option" where
  "getResult ob w = map_option state (heap w (query_of ob))"

subsection \<open>Listeners that act\<close>

text \<open>
  \<open>setState\<close>, \<open>fetch\<close> and \<open>settle\<close> above are the code for listeners whose \<open>notify\<close>
  returns at once. A \<open>notify\<close> is a function of the caller's: it can call the Query
  back or throw, and \<open>forEach\<close> runs it in the middle of \<open>setState\<close>. The definitions
  of this subsection run the callbacks. What a callback does is given from outside, as
  the host's other choices are: the script lists, for the successive calls of a stored
  callback, the actions that call performs; calls after the end of the script return
  at once, and so does the empty function an Observer has before \<open>observer.subscribe\<close>.
\<close>

datatype 'v action =
    CallFetch "'v option" qref
  | CallUnsubscribe int qref oref
  | Raise 'v

type_synonym ('k, 'h, 'f, 'v) live = "('k, 'h, 'f, 'v) world \<times> 'v action list list"

type_synonym ('k, 'h, 'f, 'v) runner =
  "'v action list \<Rightarrow> ('k, 'h, 'f, 'v) live \<Rightarrow> ('v completion \<times> ('k, 'h, 'f, 'v) live) option"

text \<open>
  Each definition takes the function \<open>r\<close> that runs the body of a callback; a result
  \<open>None\<close> says that \<open>r\<close> could not run it.

  \<open>notify_with\<close> is \<open>forEach(subscriber => subscriber.notify())\<close> over the array that
  \<open>setState\<close> read: an exception of a callback ends the loop and is thrown by it.
\<close>

fun notify_with :: "('k, 'h, 'f, 'v) runner \<Rightarrow> oref list \<Rightarrow> ('k, 'h, 'f, 'v) live \<Rightarrow>
    ('v completion \<times> ('k, 'h, 'f, 'v) live) option" where
  "notify_with r [] st = Some (Normal, st)"
| "notify_with r (s # ss) st =
     (let w1 = (fst st)\<lparr>notified := notified (fst st) @ [(s, listener (fst st) s)]\<rparr>
      in if listener (fst st) s = None \<or> snd st = []
         then notify_with r ss (w1, snd st)
         else (case r (hd (snd st)) (w1, tl (snd st)) of
                 None \<Rightarrow> None
               | Some (c, st1) \<Rightarrow>
                   (case c of Throw e \<Rightarrow> Some (Throw e, st1) | Normal \<Rightarrow> notify_with r ss st1)))"

text \<open>\<open>setState\<close>: write the state, then notify the array as it is at that moment.\<close>

definition setState_with :: "('k, 'h, 'f, 'v) runner \<Rightarrow> qref \<Rightarrow>
    ('v query_state \<Rightarrow> 'v query_state) \<Rightarrow> ('k, 'h, 'f, 'v) live \<Rightarrow>
    ('v completion \<times> ('k, 'h, 'f, 'v) live) option" where
  "setState_with r q updater st =
     (case heap (fst st) q of
        None \<Rightarrow> Some (Normal, st)
      | Some x \<Rightarrow>
          notify_with r (subscribers x)
            ((fst st)\<lparr>heap := (heap (fst st))(q \<mapsto> x\<lparr>state := updater (state x)\<rparr>)\<rparr>, snd st))"

text \<open>
  \<open>catch\<close> and \<open>finally\<close> of the \<open>try\<close> statement in \<open>fetch\<close>, entered with the completion
  \<open>c\<close> of the \<open>try\<close> block; both call \<open>setState\<close>, and what a listener throws there is
  thrown by the block.
\<close>

definition finish_with :: "('k, 'h, 'f, 'v) runner \<Rightarrow> qref \<Rightarrow> 'v completion \<Rightarrow>
    ('k, 'h, 'f, 'v) live \<Rightarrow> ('v completion \<times> ('k, 'h, 'f, 'v) live) option" where
  "finish_with r q c st =
     (case (case c of
              Normal \<Rightarrow> Some (Normal, st)
            | Throw e \<Rightarrow> setState_with r q (error_updater e) st) of
        None \<Rightarrow> None
      | Some (c2, st2) \<Rightarrow>
          (case setState_with r q settle_updater
                  (modify q (\<lambda>x. x\<lparr>promise := None\<rparr>) (fst st2), snd st2) of
             None \<Rightarrow> None
           | Some (c3, st3) \<Rightarrow>
               Some (case c3 of Normal \<Rightarrow> c2 | Throw e \<Rightarrow> Throw e, st3)))"

text \<open>
  The async function has returned with completion \<open>c\<close> (or is suspended, \<open>c = None\<close>):
  its promise gets the next handle, and \<open>query.promise = ...\<close> stores it.
\<close>

definition store_promise :: "qref \<Rightarrow> 'v completion option \<Rightarrow> ('k, 'h, 'f, 'v) world \<Rightarrow>
    handle option \<times> ('k, 'h, 'f, 'v) world" where
  "store_promise q c w =
     (let h = next_handle w
      in (Some h,
          modify q (\<lambda>x. x\<lparr>promise := Some h\<rparr>)
            (case c of
               None \<Rightarrow> w\<lparr>next_handle := Suc h, awaiting := awaiting w @ [(h, q)]\<rparr>
             | Some c' \<Rightarrow> w\<lparr>next_handle := Suc h, outcome := (outcome w)(h \<mapsto> c')\<rparr>)))"

text \<open>
  \<open>query.fetch()\<close>. The start update is outside \<open>try\<close>: an exception of a listener
  there ends the async function, whose promise is rejected and then stored like any
  other. Otherwise \<open>queryFn()\<close> is called, as in \<open>fetch\<close>.
\<close>

definition fetch_with :: "('k, 'h, 'f, 'v) runner \<Rightarrow> 'v option \<Rightarrow> qref \<Rightarrow>
    ('k, 'h, 'f, 'v) live \<Rightarrow> (handle option \<times> ('k, 'h, 'f, 'v) live) option" where
  "fetch_with r thrown q st =
     (case heap (fst st) q of
        None \<Rightarrow> Some (None, st)
      | Some x \<Rightarrow>
          (case promise x of
             Some h \<Rightarrow> Some (Some h, st)
           | None \<Rightarrow>
               (case setState_with r q start_updater st of
                  None \<Rightarrow> None
                | Some (c1, st1) \<Rightarrow>
                    (case c1 of
                       Throw e \<Rightarrow>
                         Some (fst (store_promise q (Some (Throw e)) (fst st1)),
                               (snd (store_promise q (Some (Throw e)) (fst st1)), snd st1))
                     | Normal \<Rightarrow>
                         (let w2 = (fst st1)\<lparr>invoked := invoked (fst st1) @ [(q, queryFn x)]\<rparr>
                          in (case thrown of
                                None \<Rightarrow>
                                  Some (fst (store_promise q None w2),
                                        (snd (store_promise q None w2), snd st1))
                              | Some e \<Rightarrow>
                                  (case finish_with r q (Throw e) (w2, snd st1) of
                                     None \<Rightarrow> None
                                   | Some (c, st3) \<Rightarrow>
                                       Some (fst (store_promise q (Some c) (fst st3)),
                                             (snd (store_promise q (Some c) (fst st3)),
                                              snd st3)))))))))"

text \<open>The body of one callback: its actions in order.\<close>

fun react_with :: "('k, 'h, 'f, 'v) runner \<Rightarrow> ('k, 'h, 'f, 'v) runner" where
  "react_with r [] st = Some (Normal, st)"
| "react_with r (Raise e # as) st = Some (Throw e, st)"
| "react_with r (CallUnsubscribe now q s # as) st =
     react_with r as (unsubscribe now q s (fst st), snd st)"
| "react_with r (CallFetch t q # as) st =
     (case fetch_with r t q st of
        None \<Rightarrow> None
      | Some (h, st1) \<Rightarrow> react_with r as st1)"

text \<open>
  Callbacks that nest at most \<open>n\<close> deep in the calls they make: a callback running at
  depth \<open>n\<close> makes its calls with depth \<open>n - 1\<close> left, and none runs at depth \<open>0\<close>.
\<close>

primrec callback :: "nat \<Rightarrow> ('k, 'h, 'f, 'v) runner" where
  "callback 0 = (\<lambda>acts st. None)"
| "callback (Suc n) = react_with (callback n)"

definition setState_live :: "nat \<Rightarrow> qref \<Rightarrow> ('v query_state \<Rightarrow> 'v query_state) \<Rightarrow>
    ('k, 'h, 'f, 'v) live \<Rightarrow> ('v completion \<times> ('k, 'h, 'f, 'v) live) option" where
  "setState_live n = setState_with (callback n)"

definition fetch_live :: "nat \<Rightarrow> 'v option \<Rightarrow> qref \<Rightarrow>
    ('k, 'h, 'f, 'v) live \<Rightarrow> (handle option \<times> ('k, 'h, 'f, 'v) live) option" where
  "fetch_live n = fetch_with (callback n)"






subsection \<open>Runs of the program\<close>

text \<open>Several calls of \<open>query.fetch()\<close> in a row, with nothing else in between.\<close>

fun fetch_many :: "'v option list \<Rightarrow> qref \<Rightarrow> ('k, 'h, 'f, 'v) world \<Rightarrow>
    handle option list \<times> ('k, 'h, 'f, 'v) world" where
  "fetch_many [] q w = ([], w)"
| "fetch_many (t # ts) q w =
     (let (h, w1) = fetch t q w; (hs, w2) = fetch_many ts q w1 in (h # hs, w2))"

text \<open>
  What can happen to the program from outside: a call of one of its operations, the
  settlement of an awaited value, a timer running, the clock moving on.
\<close>

datatype ('k, 'f, 'v) event =
    GetQuery "('k, 'f) options"
  | CreateObserver oref "('k, 'f) options"
  | QueryFetch "'v option" qref
  | Settle handle int "'v + 'v"
  | QuerySubscribe qref oref
  | QueryUnsubscribe int qref oref
  | TimerRuns timer
  | ClockReaches int
  | ObserverFetch "'v option" int observer
  | ObserverSubscribe "'v option" int observer callback

fun step :: "('k \<Rightarrow> 'h) \<Rightarrow> ('k, 'f, 'v) event \<Rightarrow>
    ('k, 'h, 'f, 'v) world \<Rightarrow> ('k, 'h, 'f, 'v) world" where
  "step sf (GetQuery opts) w = snd (getQuery sf opts w)"
| "step sf (CreateObserver s opts) w = snd (createQueryObserver sf s opts w)"
| "step sf (QueryFetch t q) w = snd (fetch t q w)"
| "step sf (Settle h now r) w = settle h now r w"
| "step sf (QuerySubscribe q s) w = subscribe q s w"
| "step sf (QueryUnsubscribe now q s) w = unsubscribe now q s w"
| "step sf (TimerRuns t) w = fire t w"
| "step sf (ClockReaches now) w = advance now w"
| "step sf (ObserverFetch t now ob) w = observer_fetch t now ob w"
| "step sf (ObserverSubscribe t now ob cb) w = observer_subscribe t now ob cb w"

definition run :: "('k \<Rightarrow> 'h) \<Rightarrow> ('k, 'f, 'v) event list \<Rightarrow>
    ('k, 'h, 'f, 'v) world \<Rightarrow> ('k, 'h, 'f, 'v) world" where
  "run sf evs w = fold (step sf) evs w"

text \<open>\<open>query.state\<close> and \<open>query.state.lastUpdated\<close> read through a reference.\<close>

definition state_of :: "qref \<Rightarrow> ('k, 'h, 'f, 'v) world \<Rightarrow> 'v query_state option" where
  "state_of q w = map_option state (heap w q)"

definition lastUpdated_of :: "qref \<Rightarrow> ('k, 'h, 'f, 'v) world \<Rightarrow> int option" where
  "lastUpdated_of q w = (case state_of q w of None \<Rightarrow> None | Some s \<Rightarrow> lastUpdated s)"

text \<open>
  The time of a successful fetch of Query \<open>q\<close>, when the event is one: a fulfilled
  settlement of a handle on which a fetch of \<open>q\<close> is suspended.
\<close>

fun success_time :: "qref \<Rightarrow> ('k, 'f, 'v) event \<Rightarrow> ('k, 'h, 'f, 'v) world \<Rightarrow> int option" where
  "success_time q (Settle h now (Inr d)) w =
     (if map_of (awaiting w) h = Some q \<and> heap w q \<noteq> None then Some now else None)"
| "success_time q ev w = None"

text \<open>
  The time of the most recent successful fetch of \<open>q\<close> in a run from \<open>w\<close>; \<open>acc\<close> is
  the value to report when the run has none.
\<close>

fun last_success :: "('k \<Rightarrow> 'h) \<Rightarrow> qref \<Rightarrow> ('k, 'f, 'v) event list \<Rightarrow>
    ('k, 'h, 'f, 'v) world \<Rightarrow> int option \<Rightarrow> int option" where
  "last_success sf q [] w acc = acc"
| "last_success sf q (ev # evs) w acc =
     last_success sf q evs (step sf ev w)
       (case success_time q ev w of None \<Rightarrow> acc | Some t \<Rightarrow> Some t)"

text \<open>The calls of \<open>notify\<close> made by one call of \<open>setState\<close>, in order.\<close>

definition notification_round :: "qref \<Rightarrow> ('v query_state \<Rightarrow> 'v query_state) \<Rightarrow>
    ('k, 'h, 'f, 'v) world \<Rightarrow> (oref \<times> callback option) list" where
  "notification_round q u w = drop (length (notified w)) (notified (setState q u w))"

subsection \<open>Scenarios\<close>

text \<open>The options of \<open>usePosts\<close> in the demo application; the function is opaque.\<close>

definition posts :: "(string, nat) options" where
  "posts = \<lparr>opt_queryKey = ''posts'', opt_queryFn = 7,
            opt_staleTime = Some 10000, opt_cacheTime = Some 6000\<rparr>"

text \<open>A client after \<open>getQuery\<close> for these options: one Query, reference \<open>0\<close>.\<close>

definition posts_world :: "(string, string, nat, string) world" where
  "posts_world = snd (getQuery id posts new_world)"

text \<open>
  The same client after \<open>query.fetch()\<close> whose \<open>queryFn()\<close> returned (handle \<open>0\<close> is
  pending); after that fetch succeeded at time \<open>50\<close>; and after a second
  \<open>query.fetch()\<close> (handle \<open>1\<close> is pending).
\<close>

definition fetching_world :: "(string, string, nat, string) world" where
  "fetching_world = snd (fetch None 0 posts_world)"

definition loaded_world :: "(string, string, nat, string) world" where
  "loaded_world = settle 0 50 (Inr ''[{id:1}]'') fetching_world"

definition refetching_world :: "(string, string, nat, string) world" where
  "refetching_world = snd (fetch None 0 loaded_world)"

text \<open>Options that leave \<open>staleTime\<close> and \<open>cacheTime\<close> out.\<close>

definition bare :: "(string, nat) options" where
  "bare = \<lparr>opt_queryKey = ''posts'', opt_queryFn = 7, opt_staleTime = None, opt_cacheTime = None\<rparr>"

definition bare_world :: "(string, string, nat, string) world" where
  "bare_world = snd (getQuery id bare new_world)"

text \<open>
  The first fetch of the Query succeeds while \<open>Date.now()\<close> returns \<open>0\<close> (a clock at the
  epoch, as under fake timers that start there).
\<close>

definition epoch_world :: "(string, string, nat, string) world" where
  "epoch_world = settle 0 0 (Inr ''[{id:1}]'') fetching_world"

text \<open>An Observer of Query \<open>0\<close> with the \<open>staleTime\<close> of \<open>posts\<close>.\<close>

definition watcher :: "oref \<Rightarrow> observer" where
  "watcher s = \<lparr>self = s, query_of = 0, staleTime = 10000\<rparr>"

text \<open>
  One Observer calls \<open>observer.subscribe\<close> twice, with callbacks \<open>8\<close> and \<open>9\<close>, at times
  \<open>0\<close> and \<open>10\<close>, and has not unsubscribed.
\<close>

definition twice_world :: "(string, string, nat, string) world" where
  "twice_world =
     observer_subscribe None 10 (watcher 3) 9 (observer_subscribe None 0 (watcher 3) 8 posts_world)"

text \<open>
  The key of \<open>posts\<close> with another function and another \<open>cacheTime\<close>, and the options of
  another key.
\<close>

definition posts_again :: "(string, nat) options" where
  "posts_again = \<lparr>opt_queryKey = ''posts'', opt_queryFn = 11,
                  opt_staleTime = None, opt_cacheTime = Some 1\<rparr>"

definition post_1 :: "(string, nat) options" where
  "post_1 = \<lparr>opt_queryKey = ''post,1'', opt_queryFn = 12,
             opt_staleTime = Some 10000, opt_cacheTime = Some 6000\<rparr>"

text \<open>
  After the two calls of \<open>observer.subscribe\<close>, each of the two unsubscribe closures is
  called once, at times \<open>1000\<close> and \<open>2000\<close>; another Observer subscribes at time \<open>3000\<close>;
  the clock reaches \<open>7000\<close>.
\<close>

definition left_world :: "(string, string, nat, string) world" where
  "left_world = unsubscribe 2000 0 3 (unsubscribe 1000 0 3 twice_world)"

definition rejoined_world :: "(string, string, nat, string) world" where
  "rejoined_world = observer_subscribe None 3000 (watcher 4) 5 left_world"

text \<open>
  A subscriber registered with \<open>query.subscribe\<close> whose \<open>notify\<close> is callback \<open>8\<close>; the
  same Query after \<open>query.fetch()\<close> (handle \<open>0\<close> pending, the callback having returned at
  once); and a second subscriber with callback \<open>9\<close>.
\<close>

definition watched_world :: "(string, string, nat, string) world" where
  "watched_world = subscribe 0 3 (posts_world\<lparr>listener := (listener posts_world)(3 := Some 8)\<rparr>)"


definition pair_world :: "(string, string, nat, string) world" where
  "pair_world = subscribe 0 4 (watched_world\<lparr>listener := (listener watched_world)(4 := Some 9)\<rparr>)"

section \<open>Properties\<close>

subsection \<open>Reading the store\<close>

lemma setState_Some:
  "heap w q = Some x \<Longrightarrow>
   setState q u w = w\<lparr>heap := (heap w)(q \<mapsto> x\<lparr>state := u (state x)\<rparr>),
            notified := notified w @ map (\<lambda>s. (s, listener w s)) (subscribers x)\<rparr>"
  by (simp add: setState_def)

lemma modify_Some:
  "heap w q = Some x \<Longrightarrow> modify q f w = w\<lparr>heap := (heap w)(q \<mapsto> f x)\<rparr>"
  by (simp add: modify_def)

lemma fetch_try_after_await:
  assumes "heap w q = Some x"
  shows "fetch_try q (after_await q now r) w =
     (Normal,
      w\<lparr>heap := (heap w)(q \<mapsto> x\<lparr>promise := None, state := settle_updater
                 ((case r of Inl e \<Rightarrow> error_updater e | Inr d \<Rightarrow> success_updater now d) (state x))\<rparr>),
        notified := notified w @ map (\<lambda>s. (s, listener w s)) (subscribers x)
                     @ map (\<lambda>s. (s, listener w s)) (subscribers x)\<rparr>)"
  using assms
  by (cases r)
     (simp_all add: fetch_try_def try_catch_finally_def after_await_def setState_Some modify_Some)

lemma settle_Some:
  assumes "map_of (awaiting w) h = Some q" "heap w q = Some x"
  shows "settle h now r w =
      w\<lparr>heap := (heap w)(q \<mapsto> x\<lparr>promise := None, state := settle_updater
                 ((case r of Inl e \<Rightarrow> error_updater e | Inr d \<Rightarrow> success_updater now d) (state x))\<rparr>),
        awaiting := filter (\<lambda>p. fst p \<noteq> h) (awaiting w),
        outcome := (outcome w)(h \<mapsto> Normal),
        notified := notified w @ map (\<lambda>s. (s, listener w s)) (subscribers x)
                     @ map (\<lambda>s. (s, listener w s)) (subscribers x)\<rparr>"
  using assms by (simp add: settle_def fetch_try_after_await)

lemma fetch_in_flight:
  assumes "heap w q = Some x" "promise x = Some h"
  shows "fetch t q w = (Some h, w)"
  using assms by (simp add: fetch_def)

lemma fetch_idle_returns:
  assumes "heap w q = Some x" "promise x = None"
  shows "fetch None q w =
     (Some (next_handle w),
      w\<lparr>heap := (heap w)(q \<mapsto> x\<lparr>promise := Some (next_handle w),
                                  state := start_updater (state x)\<rparr>),
        awaiting := awaiting w @ [(next_handle w, q)],
        next_handle := Suc (next_handle w),
        notified := notified w @ map (\<lambda>s. (s, listener w s)) (subscribers x),
        invoked := invoked w @ [(q, queryFn x)]\<rparr>)"
  using assms
  by (cases w, cases x) (simp add: fetch_def setState_def modify_def Let_def)

lemma fetch_idle_throws:
  assumes "heap w q = Some x" "promise x = None"
  shows "fetch (Some e) q w =
     (Some (next_handle w),
      w\<lparr>heap := (heap w)(q \<mapsto> x\<lparr>promise := Some (next_handle w),
             state := settle_updater (error_updater e (start_updater (state x)))\<rparr>),
        outcome := (outcome w)(next_handle w \<mapsto> Normal),
        next_handle := Suc (next_handle w),
        notified := notified w @ map (\<lambda>s. (s, listener w s)) (subscribers x)
            @ map (\<lambda>s. (s, listener w s)) (subscribers x)
            @ map (\<lambda>s. (s, listener w s)) (subscribers x),
        invoked := invoked w @ [(q, queryFn x)]\<rparr>)"
  using assms
  by (cases w, cases x)
     (simp add: fetch_def setState_def modify_def Let_def fetch_try_def try_catch_finally_def)

lemma fetch_idle_stores_handle:
  assumes "heap w q = Some x" "promise x = None"
  shows "fst (fetch t q w) = Some (next_handle w)"
    and "map_option promise (heap (snd (fetch t q w)) q) = Some (Some (next_handle w))"
    and "invoked (snd (fetch t q w)) = invoked w @ [(q, queryFn x)]"
  using assms
  by (cases t; simp add: fetch_idle_returns fetch_idle_throws)+

lemma fetch_many_in_flight:
  assumes "heap w q = Some x" "promise x = Some h"
  shows "fetch_many ts q w = (replicate (length ts) (Some h), w)"
  using assms by (induction ts) (simp_all add: fetch_in_flight)

lemma posts_world_heap: "heap posts_world 0 = Some (createQuery id posts)"
  by (simp add: posts_world_def getQuery_def new_world_def)

lemma posts_world_fields:
  "next_handle posts_world = 0" "invoked posts_world = []" "notified posts_world = []"
  "awaiting posts_world = []" "timers posts_world = []" "queries posts_world = [0]"
  "next_ref posts_world = 1" "next_timer posts_world = 0"
  by (simp_all add: posts_world_def getQuery_def new_world_def)

lemma posts_query_fields:
  "promise (createQuery id posts) = None" "queryFn (createQuery id posts) = 7"
  "subscribers (createQuery id posts) = []" "cacheTime (createQuery id posts) = 6000"
  "state (createQuery id posts) = initial_state" "gcTimeout (createQuery id posts) = None"
  "queryHash (createQuery id posts) = ''posts''"
  by (simp_all add: createQuery_def posts_def)

lemma fetching_world_heap:
  "heap fetching_world 0 =
     Some ((createQuery id posts)\<lparr>promise := Some 0, state := start_updater initial_state\<rparr>)"
  by (simp add: fetching_world_def fetch_idle_returns[OF posts_world_heap]
      posts_world_fields posts_query_fields)

lemma fetching_world_fields:
  "next_handle fetching_world = 1" "invoked fetching_world = [(0, 7)]"
  "notified fetching_world = []" "awaiting fetching_world = [(0, 0)]"
  "timers fetching_world = []" "queries fetching_world = [0]"
  by (simp_all add: fetching_world_def fetch_idle_returns[OF posts_world_heap]
      posts_world_fields posts_query_fields)

subsection \<open>Fetch deduplication\<close>

text \<open>
  With listeners that return at once: while a handle is stored in \<open>query.promise\<close>,
  \<open>fetch()\<close> returns that handle and changes nothing, and any number of calls in a row,
  starting from a Query with no handle stored, call \<open>queryFn\<close> once (in the first call)
  and all return the handle the first call stored.
\<close>

lemma fetch_once_in_a_row:
  "heap w q = Some x \<Longrightarrow>
     (promise x = Some h \<longrightarrow> fetch t q w = (Some h, w)) \<and>
     (promise x = None \<longrightarrow>
        fetch_many (t # ts) q w =
          (replicate (Suc (length ts)) (Some (next_handle w)), snd (fetch t q w)) \<and>
        invoked (snd (fetch_many (t # ts) q w)) = invoked w @ [(q, queryFn x)])"
proof (intro conjI impI)
  assume "heap w q = Some x" "promise x = Some h"
  then show "fetch t q w = (Some h, w)" by (rule fetch_in_flight)
next
  assume a: "heap w q = Some x" "promise x = None"
  obtain y where y: "heap (snd (fetch t q w)) q = Some y" "promise y = Some (next_handle w)"
    using fetch_idle_stores_handle(2)[OF a, of t] by auto
  have first: "fst (fetch t q w) = Some (next_handle w)"
    by (rule fetch_idle_stores_handle(1)[OF a])
  have rest: "fetch_many ts q (snd (fetch t q w)) =
      (replicate (length ts) (Some (next_handle w)), snd (fetch t q w))"
    by (rule fetch_many_in_flight[OF y])
  show many: "fetch_many (t # ts) q w =
      (replicate (Suc (length ts)) (Some (next_handle w)), snd (fetch t q w))"
    using first rest by (simp add: case_prod_unfold)
  show "invoked (snd (fetch_many (t # ts) q w)) = invoked w @ [(q, queryFn x)]"
    unfolding many using fetch_idle_stores_handle(3)[OF a, of t] by simp
qed

text \<open>
  C1. The claim fails for a call of \<open>fetch()\<close> made by a listener during the start
  update. \<open>query.promise\<close> is assigned when the async function returns, that is after
  its start \<open>setState\<close> has run every \<open>notify\<close>; a \<open>fetch()\<close> called from one of them finds
  no handle and starts a fetch of its own. Here the Query has one subscriber, whose
  callback calls \<open>query.fetch()\<close> the first time it is notified. One call of \<open>fetch()\<close>
  from outside: \<open>queryFn\<close> is called twice before anything settles, two fetches are
  suspended, the call from the listener got handle \<open>0\<close> and the outer call gets handle
  \<open>1\<close>, which is the one the Query keeps.
\<close>

theorem nested_fetch_invokes_twice:
  "map_option (\<lambda>(h, st). (h, invoked (fst st), awaiting (fst st),
                            map_option promise (heap (fst st) 0)))
     (fetch_live 1 None 0 (watched_world, [[CallFetch None 0]])) =
   Some (Some 1, [(0, 7), (0, 7)], [(0, 0), (1, 0)], Some (Some 1))"
  by code_simp

lemma loaded_world_heap:
  "heap loaded_world 0 =
     Some ((createQuery id posts)
        \<lparr>state := \<lparr>status = Success, isFetching = False, data = Some ''[{id:1}]'',
                    error = None, lastUpdated = Some 50\<rparr>\<rparr>)"
  unfolding loaded_world_def
  by (simp add: settle_Some[OF _ fetching_world_heap] fetching_world_fields posts_query_fields
      start_updater_def success_updater_def settle_updater_def initial_state_def createQuery_def)

lemma loaded_world_fields:
  "next_handle loaded_world = 1" "invoked loaded_world = [(0, 7)]"
  "notified loaded_world = []" "awaiting loaded_world = []"
  "timers loaded_world = []" "queries loaded_world = [0]"
  unfolding loaded_world_def
  by (simp_all add: settle_Some[OF _ fetching_world_heap] fetching_world_fields
      posts_query_fields)

lemma refetching_world_heap:
  "heap refetching_world 0 =
     Some ((createQuery id posts)
        \<lparr>promise := Some 1,
         state := \<lparr>status = Success, isFetching = True, data = Some ''[{id:1}]'',
                    error = None, lastUpdated = Some 50\<rparr>\<rparr>)"
  unfolding refetching_world_def
  by (simp add: fetch_idle_returns[OF loaded_world_heap] loaded_world_fields
      start_updater_def createQuery_def)

lemma refetching_world_fields:
  "next_handle refetching_world = 2" "invoked refetching_world = [(0, 7), (0, 7)]"
  "awaiting refetching_world = [(1, 0)]"
  unfolding refetching_world_def
  by (simp_all add: fetch_idle_returns[OF loaded_world_heap] loaded_world_fields
      createQuery_def posts_def)

subsection \<open>A failed fetch keeps the data\<close>

text \<open>
  C4. The failure updater sets \<open>status\<close> to \<open>error\<close> and \<open>error\<close> to the failure, and
  keeps \<open>data\<close>. For the whole failure path of a fetch, whether the awaited value is
  rejected with \<open>e\<close> or \<open>queryFn()\<close> throws \<open>e\<close> at the call: once the fetch has
  settled, the state is the state from before with \<open>status = error\<close>, \<open>error = e\<close> and
  \<open>isFetching = false\<close>; \<open>data\<close> (and every other property) is what it was.
\<close>

theorem failure_keeps_data:
  "heap w q = Some x \<Longrightarrow>
     status (error_updater e (state x)) = Error \<and>
     error (error_updater e (state x)) = Some e \<and>
     data (error_updater e (state x)) = data (state x) \<and>
     (map_of (awaiting w) h = Some q \<longrightarrow>
        state_of q (settle h now (Inl e) w) =
          Some ((state x)\<lparr>status := Error, isFetching := False, error := Some e\<rparr>) \<and>
        map_option data (state_of q (settle h now (Inl e) w)) = Some (data (state x))) \<and>
     (promise x = None \<longrightarrow>
        state_of q (snd (fetch (Some e) q w)) =
          Some ((state x)\<lparr>status := Error, isFetching := False, error := Some e\<rparr>) \<and>
        map_option data (state_of q (snd (fetch (Some e) q w))) = Some (data (state x)))"
  by (cases "state x")
     (simp add: settle_Some fetch_idle_throws state_of_def error_updater_def settle_updater_def
       start_updater_def)

theorem failure_keeps_data_witness:
  "state_of 0 (settle 1 20000 (Inl ''boom'') refetching_world) =
     Some \<lparr>status = Error, isFetching = False, data = Some ''[{id:1}]'',
           error = Some ''boom'', lastUpdated = Some 50\<rparr> \<and>
   map_option data (state_of 0 (settle 1 20000 (Inl ''boom'') refetching_world)) =
     Some (Some ''[{id:1}]'') \<and>
   map_option data (state_of 0 (snd (fetch (Some ''boom'') 0 loaded_world))) =
     Some (Some ''[{id:1}]'')"
  using failure_keeps_data[OF refetching_world_heap, of "''boom''" 1 20000]
    failure_keeps_data[OF loaded_world_heap, of "''boom''" 1 20000]
  by (simp add: refetching_world_fields posts_query_fields)

subsection \<open>Settlement and recovery\<close>

text \<open>
  When the awaited value settles, fulfilled or rejected, the \<open>finally\<close> block leaves
  \<open>isFetching = false\<close> and no handle stored, and the next \<open>fetch()\<close> calls \<open>queryFn\<close>
  again.
\<close>

lemma settle_clears_handle:
  assumes "heap w q = Some x" "map_of (awaiting w) h = Some q"
  shows "map_option promise (heap (settle h now r w) q) = Some None"
    and "map_option isFetching (state_of q (settle h now r w)) = Some False"
    and "invoked (snd (fetch t q (settle h now r w))) = invoked w @ [(q, queryFn x)]"
proof -
  let ?x' = "x\<lparr>promise := None, state := settle_updater
      ((case r of Inl e \<Rightarrow> error_updater e | Inr d \<Rightarrow> success_updater now d) (state x))\<rparr>"
  have h: "heap (settle h now r w) q = Some ?x'"
    using assms by (simp add: settle_Some)
  show "map_option promise (heap (settle h now r w) q) = Some None"
    by (simp add: h)
  show "map_option isFetching (state_of q (settle h now r w)) = Some False"
    by (simp add: h state_of_def settle_updater_def)
  have "invoked (snd (fetch t q (settle h now r w))) =
        invoked (settle h now r w) @ [(q, queryFn ?x')]"
    by (rule fetch_idle_stores_handle(3)[OF h]) simp
  then show "invoked (snd (fetch t q (settle h now r w))) = invoked w @ [(q, queryFn x)]"
    using assms by (simp add: settle_Some)
qed

text \<open>
  C5. The claim fails when \<open>queryFn()\<close> throws at the call instead of returning a
  promise that rejects. \<open>catch\<close> and \<open>finally\<close> then run inside the call of the async
  function, before \<open>query.promise = ...\<close> stores that function's promise; the handle
  cleared by \<open>finally\<close> is set again by the assignment and nothing clears it afterwards.
  Here: the first \<open>fetch()\<close> of the Query, with \<open>queryFn\<close> throwing \<open>boom\<close>. The fetch has
  failed and settled (status \<open>error\<close>, \<open>isFetching = false\<close>, promise \<open>0\<close> completed), the
  handle \<open>0\<close> is still stored, and the next \<open>fetch()\<close> returns it without calling
  \<open>queryFn\<close>.
\<close>

theorem sync_throw_leaves_handle:
  "state_of 0 (snd (fetch (Some ''boom'') 0 posts_world)) =
     Some \<lparr>status = Error, isFetching = False, data = None, error = Some ''boom'',
           lastUpdated = None\<rparr> \<and>
   outcome (snd (fetch (Some ''boom'') 0 posts_world)) 0 = Some Normal \<and>
   map_option promise (heap (snd (fetch (Some ''boom'') 0 posts_world)) 0) = Some (Some 0) \<and>
   fetch None 0 (snd (fetch (Some ''boom'') 0 posts_world)) =
     (Some 0, snd (fetch (Some ''boom'') 0 posts_world)) \<and>
   invoked (snd (fetch None 0 (snd (fetch (Some ''boom'') 0 posts_world)))) = [(0, 7)]"
proof -
  let ?w = "snd (fetch (Some ''boom'') 0 posts_world)"
  have h: "heap ?w 0 = Some ((createQuery id posts)\<lparr>promise := Some 0,
      state := settle_updater (error_updater ''boom'' (start_updater initial_state))\<rparr>)"
    by (simp add: fetch_idle_throws[OF posts_world_heap] posts_world_fields posts_query_fields)
  have again: "fetch None 0 ?w = (Some 0, ?w)"
    by (rule fetch_in_flight[OF h]) simp
  have inv: "invoked ?w = [(0, 7)]"
    by (simp add: fetch_idle_throws[OF posts_world_heap] posts_world_fields posts_query_fields)
  have out: "outcome ?w 0 = Some Normal"
    by (simp add: fetch_idle_throws[OF posts_world_heap] posts_world_fields posts_query_fields)
  have st: "state_of 0 ?w = Some \<lparr>status = Error, isFetching = False, data = None,
      error = Some ''boom'', lastUpdated = None\<rparr>"
    by (simp add: state_of_def h settle_updater_def error_updater_def start_updater_def
        initial_state_def)
  show ?thesis
    using st out again inv by (simp add: h)
qed

subsection \<open>A failure of the fetch operation does not fail \<open>fetch()\<close>\<close>

text \<open>
  With listeners that return at once, the \<open>try\<close> statement of the async function
  completes normally whatever its body does. When the awaited value is rejected with
  \<open>e\<close>, or \<open>queryFn()\<close> throws \<open>e\<close> at the call, the promise of that fetch is fulfilled
  and the failure is in the state: \<open>status = error\<close>, \<open>error = e\<close>.
\<close>

lemma fetch_try_completes:
  "fst (fetch_try q body w) = Normal \<and>
   (heap w q = Some x \<longrightarrow>
      (map_of (awaiting w) h = Some q \<longrightarrow>
         outcome (settle h now r w) h = Some Normal \<and>
         map_option (\<lambda>s. (status s, error s)) (state_of q (settle h now (Inl e) w)) =
           Some (Error, Some e)) \<and>
      (promise x = None \<longrightarrow>
         fst (fetch (Some e) q w) = Some (next_handle w) \<and>
         outcome (snd (fetch (Some e) q w)) (next_handle w) = Some Normal \<and>
         map_option (\<lambda>s. (status s, error s)) (state_of q (snd (fetch (Some e) q w))) =
           Some (Error, Some e)))"
proof (intro conjI impI)
  show "fst (fetch_try q body w) = Normal"
    by (simp add: fetch_try_def try_catch_finally_def split: prod.splits completion.splits)
next
  assume "heap w q = Some x" "map_of (awaiting w) h = Some q"
  then show "outcome (settle h now r w) h = Some Normal"
    by (simp add: settle_Some)
next
  assume "heap w q = Some x" "map_of (awaiting w) h = Some q"
  then show "map_option (\<lambda>s. (status s, error s)) (state_of q (settle h now (Inl e) w)) =
      Some (Error, Some e)"
    by (simp add: settle_Some state_of_def settle_updater_def error_updater_def)
next
  assume a: "heap w q = Some x" "promise x = None"
  show "fst (fetch (Some e) q w) = Some (next_handle w)"
    by (simp add: fetch_idle_throws[OF a])
  show "outcome (snd (fetch (Some e) q w)) (next_handle w) = Some Normal"
    by (simp add: fetch_idle_throws[OF a])
  show "map_option (\<lambda>s. (status s, error s)) (state_of q (snd (fetch (Some e) q w))) =
      Some (Error, Some e)"
    by (simp add: fetch_idle_throws[OF a] state_of_def settle_updater_def error_updater_def)
qed

subsection \<open>Who writes \<open>lastUpdated\<close>\<close>

lemma state_of_modify:
  "(\<And>x. state (f x) = state x) \<Longrightarrow> state_of q (modify q' f w) = state_of q w"
  by (simp add: state_of_def modify_def split: option.splits)

lemma next_ref_modify: "next_ref (modify q f w) = next_ref w"
  by (simp add: modify_def split: option.splits)

lemma next_ref_setState: "next_ref (setState q u w) = next_ref w"
  by (simp add: setState_def split: option.splits)

lemma lastUpdated_of_setState:
  "(\<And>s. lastUpdated (u s) = lastUpdated s) \<Longrightarrow>
   lastUpdated_of q (setState q' u w) = lastUpdated_of q w"
  by (simp add: lastUpdated_of_def state_of_def setState_def split: option.splits)

lemma lastUpdated_of_modify:
  "(\<And>x. state (f x) = state x) \<Longrightarrow> lastUpdated_of q (modify q' f w) = lastUpdated_of q w"
  by (simp add: lastUpdated_of_def state_of_modify)

lemma keeps_lastUpdated:
  "lastUpdated (start_updater s) = lastUpdated s"
  "lastUpdated (error_updater e s) = lastUpdated s"
  "lastUpdated (settle_updater s) = lastUpdated s"
  "lastUpdated (success_updater now d s) = Some now"
  by (simp_all add: start_updater_def error_updater_def settle_updater_def success_updater_def)

lemma lastUpdated_of_frame:
  "lastUpdated_of q (w\<lparr>invoked := a\<rparr>) = lastUpdated_of q w"
  "lastUpdated_of q (w\<lparr>next_handle := b\<rparr>) = lastUpdated_of q w"
  "lastUpdated_of q (w\<lparr>awaiting := c\<rparr>) = lastUpdated_of q w"
  "lastUpdated_of q (w\<lparr>outcome := d\<rparr>) = lastUpdated_of q w"
  "lastUpdated_of q (w\<lparr>timers := e\<rparr>) = lastUpdated_of q w"
  "lastUpdated_of q (w\<lparr>next_timer := f\<rparr>) = lastUpdated_of q w"
  "lastUpdated_of q (w\<lparr>queries := g\<rparr>) = lastUpdated_of q w"
  "lastUpdated_of q (w\<lparr>listener := h\<rparr>) = lastUpdated_of q w"
  "lastUpdated_of q (w\<lparr>notified := i\<rparr>) = lastUpdated_of q w"
  by (simp_all add: lastUpdated_of_def state_of_def)

lemma lastUpdated_of_fetch_try_throw:
  "lastUpdated_of q (snd (fetch_try q' (\<lambda>w. (Throw e, w)) w)) = lastUpdated_of q w"
  by (simp add: fetch_try_def try_catch_finally_def lastUpdated_of_setState
      lastUpdated_of_modify keeps_lastUpdated)

lemma lastUpdated_of_fetch:
  "lastUpdated_of q (snd (fetch t q' w)) = lastUpdated_of q w"
  by (simp add: fetch_def Let_def lastUpdated_of_setState lastUpdated_of_modify
      lastUpdated_of_frame keeps_lastUpdated lastUpdated_of_fetch_try_throw
      case_prod_unfold split: option.splits)


lemma next_ref_fetch_try: "next_ref (snd (fetch_try q body w)) = next_ref (snd (body w))"
  by (simp add: fetch_try_def try_catch_finally_def next_ref_setState next_ref_modify
      Let_def case_prod_unfold split: completion.splits)

lemma next_ref_fetch: "next_ref (snd (fetch t q w)) = next_ref w"
  by (simp add: fetch_def Let_def next_ref_setState next_ref_modify next_ref_fetch_try
      case_prod_unfold split: option.splits)

lemma next_ref_settle: "next_ref (settle h now r w) = next_ref w"
  by (simp add: settle_def Let_def next_ref_fetch_try after_await_def next_ref_setState
      case_prod_unfold split: option.splits sum.splits)

lemma lastUpdated_of_settle:
  "lastUpdated_of q (settle h now r w) =
     (case success_time q (Settle h now r) w of None \<Rightarrow> lastUpdated_of q w | Some t \<Rightarrow> Some t)"
proof (cases "map_of (awaiting w) h")
  case None
  then show ?thesis by (cases r) (simp_all add: settle_def)
next
  case (Some q')
  show ?thesis
  proof (cases "heap w q'")
    case None
    then have "modify q' f v = v" if "heap v = heap w" for f v
      using that by (simp add: modify_def)
    moreover from None have "setState q' u v = v" if "heap v = heap w" for u v
      using that by (simp add: setState_def)
    ultimately show ?thesis
      using Some None
      by (cases r)
         (auto simp add: settle_def fetch_try_def try_catch_finally_def after_await_def
           lastUpdated_of_frame)
  next
    case (Some x)
    with \<open>map_of (awaiting w) h = Some q'\<close> show ?thesis
      by (cases r)
         (auto simp add: settle_Some lastUpdated_of_def state_of_def keeps_lastUpdated)
  qed
qed

lemma lastUpdated_of_clearTimeout: "lastUpdated_of q (clearTimeout t w) = lastUpdated_of q w"
  by (simp add: clearTimeout_def lastUpdated_of_frame split: option.splits)

lemma lastUpdated_of_unscheduleGC: "lastUpdated_of q (unscheduleGC q' w) = lastUpdated_of q w"
  by (simp add: unscheduleGC_def lastUpdated_of_clearTimeout split: option.splits)

lemma lastUpdated_of_scheduleGC: "lastUpdated_of q (scheduleGC now q' w) = lastUpdated_of q w"
  by (simp add: scheduleGC_def Let_def lastUpdated_of_modify lastUpdated_of_frame
      split: option.splits)

lemma lastUpdated_of_subscribe: "lastUpdated_of q (subscribe q' s w) = lastUpdated_of q w"
  by (simp add: subscribe_def lastUpdated_of_unscheduleGC lastUpdated_of_modify)

lemma lastUpdated_of_unsubscribe:
  "lastUpdated_of q (unsubscribe now q' s w) = lastUpdated_of q w"
  by (simp add: unsubscribe_def Let_def lastUpdated_of_scheduleGC lastUpdated_of_modify
      split: option.splits)

lemma lastUpdated_of_fire: "lastUpdated_of q (fire t w) = lastUpdated_of q w"
  by (simp add: fire_def lastUpdated_of_def state_of_def split: option.splits)

lemma lastUpdated_of_fold_fire: "lastUpdated_of q (fold fire ts w) = lastUpdated_of q w"
  by (induction ts arbitrary: w) (simp_all add: lastUpdated_of_fire)

lemma lastUpdated_of_advance: "lastUpdated_of q (advance now w) = lastUpdated_of q w"
  by (simp add: advance_def lastUpdated_of_fold_fire)

lemma lastUpdated_of_getQuery:
  "q < next_ref w \<Longrightarrow> lastUpdated_of q (snd (getQuery sf opts w)) = lastUpdated_of q w"
  by (simp add: getQuery_def Let_def lastUpdated_of_def state_of_def split: option.splits)

lemma lastUpdated_of_createQueryObserver:
  "q < next_ref w \<Longrightarrow>
   lastUpdated_of q (snd (createQueryObserver sf s opts w)) = lastUpdated_of q w"
  by (simp add: createQueryObserver_def Let_def case_prod_unfold lastUpdated_of_frame
      lastUpdated_of_getQuery)

lemma lastUpdated_of_observer_fetch:
  "lastUpdated_of q (observer_fetch t now ob w) = lastUpdated_of q w"
  by (simp add: observer_fetch_def lastUpdated_of_fetch split: option.splits)

lemma lastUpdated_of_observer_subscribe:
  "lastUpdated_of q (observer_subscribe t now ob cb w) = lastUpdated_of q w"
  by (simp add: observer_subscribe_def lastUpdated_of_observer_fetch lastUpdated_of_subscribe
      lastUpdated_of_frame)

lemma next_ref_clearTimeout: "next_ref (clearTimeout t w) = next_ref w"
  by (simp add: clearTimeout_def split: option.splits)

lemma next_ref_subscribe: "next_ref (subscribe q s w) = next_ref w"
  by (simp add: subscribe_def unscheduleGC_def next_ref_clearTimeout next_ref_modify
      split: option.splits)

lemma next_ref_unsubscribe: "next_ref (unsubscribe now q s w) = next_ref w"
  by (simp add: unsubscribe_def scheduleGC_def Let_def next_ref_modify split: option.splits)

lemma next_ref_fire: "next_ref (fire t w) = next_ref w"
  by (simp add: fire_def split: option.splits)

lemma next_ref_advance: "next_ref (advance now w) = next_ref w"
proof -
  have "next_ref (fold fire ts v) = next_ref v" for ts and v :: "('a, 'b, 'c, 'd) world"
    by (induction ts arbitrary: v) (simp_all add: next_ref_fire)
  then show ?thesis by (simp add: advance_def)
qed

lemma next_ref_getQuery: "next_ref w \<le> next_ref (snd (getQuery sf opts w))"
  by (simp add: getQuery_def Let_def split: option.splits)

lemma next_ref_step: "next_ref w \<le> next_ref (step sf ev w)"
  by (cases ev)
     (simp_all add: next_ref_getQuery createQueryObserver_def Let_def case_prod_unfold next_ref_fetch
       next_ref_settle next_ref_subscribe next_ref_unsubscribe next_ref_fire next_ref_advance
       observer_fetch_def observer_subscribe_def split: option.splits)

lemma lastUpdated_of_step:
  "q < next_ref w \<Longrightarrow>
   lastUpdated_of q (step sf ev w) =
     (case success_time q ev w of None \<Rightarrow> lastUpdated_of q w | Some t \<Rightarrow> Some t)"
proof (cases ev)
  case (Settle h now r)
  then show ?thesis by (simp add: lastUpdated_of_settle)
qed (simp_all add: lastUpdated_of_getQuery lastUpdated_of_createQueryObserver
      lastUpdated_of_fetch lastUpdated_of_subscribe lastUpdated_of_unsubscribe
      lastUpdated_of_fire lastUpdated_of_advance lastUpdated_of_observer_fetch
      lastUpdated_of_observer_subscribe)

lemma lastUpdated_of_run:
  "q < next_ref w \<Longrightarrow>
   lastUpdated_of q (run sf evs w) = last_success sf q evs w (lastUpdated_of q w)"
proof (induction evs arbitrary: w)
  case Nil
  then show ?case by (simp add: run_def)
next
  case (Cons ev evs)
  have "q < next_ref (step sf ev w)"
    using Cons.prems next_ref_step[of w sf ev] by simp
  from Cons.IH[OF this] show ?case
    using Cons.prems by (simp add: run_def lastUpdated_of_step)
qed


text \<open>
  C10. Of the four updaters of \<open>fetch\<close>, only the success updater writes
  \<open>lastUpdated\<close>; the start, failure and settle updaters keep it. Over any run of the
  program (lookups, fetches, settlements, subscriptions, timers), the \<open>lastUpdated\<close> of
  a Query is the time of the most recent successful fetch of that Query in the run, or
  what it was before the run when there is none. The gate of \<open>observer.fetch\<close> reads
  nothing of the state but \<open>lastUpdated\<close>, so failed fetches in between do not move it.
\<close>

theorem lastUpdated_only_by_success:
  "lastUpdated (start_updater s) = lastUpdated s \<and>
   lastUpdated (error_updater e s) = lastUpdated s \<and>
   lastUpdated (settle_updater s) = lastUpdated s \<and>
   lastUpdated (success_updater now d s) = Some now \<and>
   is_stale T t (settle_updater (error_updater e (start_updater s))) = is_stale T t s \<and>
   (q < next_ref w \<longrightarrow>
      lastUpdated_of q (run sf evs w) = last_success sf q evs w (lastUpdated_of q w))"
  by (simp add: keeps_lastUpdated lastUpdated_of_run is_stale_def)

theorem lastUpdated_only_by_success_witness:
  "lastUpdated_of 0
     (run id [QueryFetch None 0, Settle 0 50 (Inr ''[{id:1}]''),
              QueryFetch None 0, Settle 1 20000 (Inl ''boom''),
              QueryFetch (Some ''boom'') 0] posts_world) = Some 50"
  using lastUpdated_only_by_success[of initial_state "''boom''" 50 "''[{id:1}]''" 10000 60
      0 posts_world id
      "[QueryFetch None 0, Settle 0 50 (Inr ''[{id:1}]''),
        QueryFetch None 0, Settle 1 20000 (Inl ''boom''),
        QueryFetch (Some ''boom'') 0]"]
  by (simp add: posts_world_fields fetching_world_def[symmetric] fetching_world_fields
      fetching_world_heap)


subsection \<open>Defaults\<close>

text \<open>
  C9. With \<open>staleTime\<close> left out, the Observer's threshold is \<open>0\<close>, and its gate is open
  whenever the time since \<open>lastUpdated\<close> is greater than zero. With \<open>cacheTime\<close> left out,
  a Query is created with \<open>cacheTime = 300000\<close> (also when it is created through
  \<open>createQueryObserver\<close>), and \<open>scheduleGC\<close> sets its timer to run 300000 ms later.
\<close>

theorem defaults:
  "(opt_staleTime opts = None \<longrightarrow>
      staleTime (fst (createQueryObserver sf s opts w)) = 0 \<and>
      (lastUpdated st = Some t0 \<and> t0 < now \<longrightarrow>
         is_stale (staleTime (fst (createQueryObserver sf s opts w))) now st)) \<and>
   (opt_cacheTime opts = None \<longrightarrow>
      cacheTime (createQuery sf opts :: ('k, 'h, 'f, 'v) query) = 300000 \<and>
      map_option cacheTime
        (heap (snd (createQueryObserver sf s opts (new_world :: ('k, 'h, 'f, 'v) world))) 0) =
        Some 300000 \<and>
      (heap w q = Some (createQuery sf opts) \<longrightarrow>
         timers (scheduleGC now q w) = timers w @ [(next_timer w, now + 300000, q)]))"
  by (simp add: createQueryObserver_def createQuery_def getQuery_def new_world_def Let_def
      case_prod_unfold is_stale_def scheduleGC_def modify_def split: option.splits)

theorem defaults_witness:
  "staleTime (fst (createQueryObserver id 1 bare bare_world)) = 0 \<and>
   is_stale (staleTime (fst (createQueryObserver id 1 bare bare_world))) 51
     \<lparr>status = Success, isFetching = False, data = Some ''[]'', error = None,
      lastUpdated = Some 50\<rparr> \<and>
   cacheTime (createQuery id bare :: (string, string, nat, string) query) = 300000 \<and>
   map_option cacheTime
     (heap (snd (createQueryObserver id 1 bare (new_world :: (string, string, nat, string) world))) 0) =
     Some 300000 \<and>
   timers (scheduleGC 51 0 bare_world) = [(0, 300051, 0)]"
proof -
  have none: "opt_staleTime bare = None" "opt_cacheTime bare = None"
    by (simp_all add: bare_def)
  have h: "heap bare_world 0 = Some (createQuery id bare)"
    "timers bare_world = []" "next_timer bare_world = 0"
    by (simp_all add: bare_world_def getQuery_def new_world_def)
  show ?thesis
    using defaults[where opts = bare and sf = id and s = 1 and now = 51 and ?t0.0 = 50
      and q = 0 and w = bare_world
      and st = "\<lparr>status = Success, isFetching = False, data = Some ''[]'', error = None,
        lastUpdated = Some 50\<rparr>"]
    by (simp add: none h)
qed

subsection \<open>The staleness gate\<close>

text \<open>
  When the gate is closed, \<open>observer.fetch()\<close> changes nothing. The gate is open exactly
  when \<open>lastUpdated\<close> is unset or older than \<open>staleTime\<close>, for every \<open>lastUpdated\<close> but \<open>0\<close>.
\<close>

lemma observer_fetch_closed:
  "heap w (query_of ob) = Some x \<Longrightarrow> \<not> is_stale (staleTime ob) now (state x) \<Longrightarrow>
   observer_fetch t now ob w = w"
  by (simp add: observer_fetch_def)

lemma observer_fetch_open:
  "heap w (query_of ob) = Some x \<Longrightarrow> is_stale (staleTime ob) now (state x) \<Longrightarrow>
   observer_fetch t now ob w = snd (fetch t (query_of ob) w)"
  by (simp add: observer_fetch_def)

lemma is_stale_iff:
  "lastUpdated st \<noteq> Some 0 \<Longrightarrow>
   is_stale T now st \<longleftrightarrow>
     (lastUpdated st = None \<or> (\<exists>t0. lastUpdated st = Some t0 \<and> now - t0 > T))"
  by (auto simp add: is_stale_def falsy_def split: option.splits)

lemma epoch_world_heap:
  "heap epoch_world 0 =
     Some ((createQuery id posts)
        \<lparr>state := \<lparr>status = Success, isFetching = False, data = Some ''[{id:1}]'',
                    error = None, lastUpdated = Some 0\<rparr>\<rparr>)"
  unfolding epoch_world_def
  by (simp add: settle_Some[OF _ fetching_world_heap] fetching_world_fields posts_query_fields
      start_updater_def success_updater_def settle_updater_def initial_state_def createQuery_def)

lemma epoch_world_fields:
  "next_handle epoch_world = 1" "invoked epoch_world = [(0, 7)]"
  unfolding epoch_world_def
  by (simp_all add: settle_Some[OF _ fetching_world_heap] fetching_world_fields)

text \<open>
  C2. The claim fails when \<open>lastUpdated\<close> is \<open>0\<close>: \<open>!query.state.lastUpdated\<close> is true for
  the number \<open>0\<close> as it is for \<open>undefined\<close>. Here the last fetch succeeded at time \<open>0\<close>,
  \<open>staleTime\<close> is 10000 and \<open>observer.fetch()\<close> runs at time 5000: \<open>lastUpdated\<close> is set,
  \<open>5000 - 0 > 10000\<close> is false, and yet \<open>queryFn\<close> is called a second time.
\<close>

theorem gate_open_at_epoch:
  "lastUpdated_of 0 epoch_world = Some 0 \<and>
   \<not> (5000 - 0 > (10000 :: int)) \<and>
   invoked epoch_world = [(0, 7)] \<and>
   invoked (observer_fetch None 5000 (watcher 1) epoch_world) = [(0, 7), (0, 7)] \<and>
   map_option isFetching (state_of 0 (observer_fetch None 5000 (watcher 1) epoch_world)) = Some True"
proof -
  let ?x = "(createQuery id posts)
        \<lparr>state := \<lparr>status = Success, isFetching = False, data = Some ''[{id:1}]'',
                    error = None, lastUpdated = Some 0\<rparr>\<rparr>"
  have p: "promise ?x = None" by (simp add: posts_query_fields)
  have "is_stale (staleTime (watcher 1)) 5000 (state ?x)"
    by (simp add: is_stale_def falsy_def)
  then have "observer_fetch None 5000 (watcher 1) epoch_world = snd (fetch None 0 epoch_world)"
    using epoch_world_heap by (simp add: observer_fetch_def watcher_def)
  then show ?thesis
    by (simp add: fetch_idle_returns[OF epoch_world_heap p] epoch_world_fields
        lastUpdated_of_def state_of_def epoch_world_heap posts_query_fields start_updater_def)
qed


subsection \<open>Notification\<close>

lemma subscribe_Some:
  "heap w q = Some x \<Longrightarrow>
   subscribe q s w =
     w\<lparr>heap := (heap w)(q \<mapsto> x\<lparr>subscribers := subscribers x @ [s]\<rparr>),
       timers := (case gcTimeout x of None \<Rightarrow> timers w
                  | Some i \<Rightarrow> filter (\<lambda>p. fst p \<noteq> i) (timers w))\<rparr>"
  by (cases w) (simp add: subscribe_def unscheduleGC_def clearTimeout_def modify_def
      split: option.splits)

lemma unsubscribe_subscribers:
  "heap w q = Some x \<Longrightarrow>
   map_option subscribers (heap (unsubscribe now q s w) q) =
     Some (filter (\<lambda>d. d \<noteq> s) (subscribers x))"
  by (simp add: unsubscribe_def scheduleGC_def modify_def Let_def)

lemma unsubscribe_listener: "listener (unsubscribe now q s w) = listener w"
  by (simp add: unsubscribe_def scheduleGC_def modify_def Let_def split: option.splits)

lemma unsubscribe_notified: "notified (unsubscribe now q s w) = notified w"
  by (simp add: unsubscribe_def scheduleGC_def modify_def Let_def split: option.splits)

lemma notification_round_Some:
  "heap w q = Some x \<Longrightarrow>
   notification_round q u w = map (\<lambda>s. (s, listener w s)) (subscribers x)"
  by (simp add: notification_round_def setState_Some)

lemma observer_fetch_in_flight:
  "heap w (query_of ob) = Some x \<Longrightarrow> promise x = Some h \<Longrightarrow> observer_fetch t now ob w = w"
  by (simp add: observer_fetch_def fetch_in_flight)

lemma observer_subscribe_starts:
  assumes "heap w (query_of ob) = Some x" "promise x = None"
    "is_stale (staleTime ob) now (state x)"
  shows "observer_subscribe None now ob cb w =
     w\<lparr>heap := (heap w)(query_of ob \<mapsto>
          x\<lparr>promise := Some (next_handle w), subscribers := subscribers x @ [self ob],
            state := start_updater (state x)\<rparr>),
       listener := (listener w)(self ob := Some cb),
       timers := (case gcTimeout x of None \<Rightarrow> timers w
                  | Some i \<Rightarrow> filter (\<lambda>p. fst p \<noteq> i) (timers w)),
       awaiting := awaiting w @ [(next_handle w, query_of ob)],
       next_handle := Suc (next_handle w),
       notified := notified w @
          map (\<lambda>s. (s, ((listener w)(self ob := Some cb)) s)) (subscribers x @ [self ob]),
       invoked := invoked w @ [(query_of ob, queryFn x)]\<rparr>"
proof -
  let ?w0 = "w\<lparr>listener := (listener w)(self ob := Some cb)\<rparr>"
  let ?x1 = "x\<lparr>subscribers := subscribers x @ [self ob]\<rparr>"
  let ?w1 = "?w0\<lparr>heap := (heap w)(query_of ob \<mapsto> ?x1),
       timers := (case gcTimeout x of None \<Rightarrow> timers w
                  | Some i \<Rightarrow> filter (\<lambda>p. fst p \<noteq> i) (timers w))\<rparr>"
  have h0: "heap ?w0 (query_of ob) = Some x" using assms(1) by simp
  have s: "subscribe (query_of ob) (self ob) ?w0 = ?w1"
    by (simp add: subscribe_Some[OF h0] cong: option.case_cong)
  have h1: "heap ?w1 (query_of ob) = Some ?x1" by simp
  have p1: "promise ?x1 = None" using assms(2) by simp
  have "observer_fetch None now ob ?w1 = snd (fetch None (query_of ob) ?w1)"
    by (rule observer_fetch_open[OF h1]) (simp add: assms(3))
  then have "observer_subscribe None now ob cb w = snd (fetch None (query_of ob) ?w1)"
    by (simp add: observer_subscribe_def s)
  then show ?thesis
    unfolding fetch_idle_returns[OF h1 p1]
    by (cases w, cases x) simp
qed

lemma observer_subscribe_joins:
  assumes "heap w (query_of ob) = Some x" "promise x = Some h"
  shows "observer_subscribe t now ob cb w =
     w\<lparr>heap := (heap w)(query_of ob \<mapsto> x\<lparr>subscribers := subscribers x @ [self ob]\<rparr>),
       listener := (listener w)(self ob := Some cb),
       timers := (case gcTimeout x of None \<Rightarrow> timers w
                  | Some i \<Rightarrow> filter (\<lambda>p. fst p \<noteq> i) (timers w))\<rparr>"
proof -
  let ?w0 = "w\<lparr>listener := (listener w)(self ob := Some cb)\<rparr>"
  let ?x1 = "x\<lparr>subscribers := subscribers x @ [self ob]\<rparr>"
  let ?w1 = "?w0\<lparr>heap := (heap w)(query_of ob \<mapsto> ?x1),
       timers := (case gcTimeout x of None \<Rightarrow> timers w
                  | Some i \<Rightarrow> filter (\<lambda>p. fst p \<noteq> i) (timers w))\<rparr>"
  have h0: "heap ?w0 (query_of ob) = Some x" using assms(1) by simp
  have s: "subscribe (query_of ob) (self ob) ?w0 = ?w1"
    by (simp add: subscribe_Some[OF h0] cong: option.case_cong)
  have h1: "heap ?w1 (query_of ob) = Some ?x1" by simp
  have p1: "promise ?x1 = Some h" using assms(2) by simp
  have "observer_fetch t now ob ?w1 = ?w1"
    by (rule observer_fetch_in_flight[OF h1 p1])
  then have "observer_subscribe t now ob cb w = ?w1"
    by (simp add: observer_subscribe_def s)
  then show ?thesis
    by (cases w, cases x) simp
qed

lemma watcher_fields: "query_of (watcher s) = 0" "self (watcher s) = s" "staleTime (watcher s) = 10000"
  by (simp_all add: watcher_def)

lemma once_world:
  "heap (observer_subscribe None 0 (watcher 3) 8 posts_world) 0 =
     Some ((createQuery id posts)\<lparr>promise := Some 0, subscribers := [3],
            state := start_updater initial_state\<rparr>)"
  "listener (observer_subscribe None 0 (watcher 3) 8 posts_world) 3 = Some 8"
  "timers (observer_subscribe None 0 (watcher 3) 8 posts_world) = []"
  "next_timer (observer_subscribe None 0 (watcher 3) 8 posts_world) = 0"
  "queries (observer_subscribe None 0 (watcher 3) 8 posts_world) = [0]"
proof -
  have h: "heap posts_world (query_of (watcher 3)) = Some (createQuery id posts)"
    by (simp add: watcher_fields posts_world_heap)
  have st: "is_stale (staleTime (watcher 3)) 0 (state (createQuery id posts))"
    by (simp add: posts_query_fields is_stale_def falsy_def initial_state_def)
  note eq = observer_subscribe_starts[OF h posts_query_fields(1) st]
  show "heap (observer_subscribe None 0 (watcher 3) 8 posts_world) 0 =
     Some ((createQuery id posts)\<lparr>promise := Some 0, subscribers := [3],
            state := start_updater initial_state\<rparr>)"
    unfolding eq by (simp add: watcher_fields posts_query_fields posts_world_fields)
  show "listener (observer_subscribe None 0 (watcher 3) 8 posts_world) 3 = Some 8"
    unfolding eq by (simp add: watcher_fields)
  show "timers (observer_subscribe None 0 (watcher 3) 8 posts_world) = []"
    unfolding eq by (simp add: posts_query_fields posts_world_fields)
  show "next_timer (observer_subscribe None 0 (watcher 3) 8 posts_world) = 0"
    unfolding eq by (simp add: posts_world_fields)
  show "queries (observer_subscribe None 0 (watcher 3) 8 posts_world) = [0]"
    unfolding eq by (simp add: posts_world_fields)
qed

lemma twice_world_fields:
  "heap twice_world 0 =
     Some ((createQuery id posts)
        \<lparr>promise := Some 0, subscribers := [3, 3], state := start_updater initial_state\<rparr>)"
  "listener twice_world 3 = Some 9"
  "timers twice_world = []"
  "next_timer twice_world = 0"
  "queries twice_world = [0]"
proof -
  let ?a = "observer_subscribe None 0 (watcher 3) 8 posts_world"
  let ?x = "(createQuery id posts)\<lparr>promise := Some 0, subscribers := [3],
            state := start_updater initial_state\<rparr>"
  have h: "heap ?a (query_of (watcher 3)) = Some ?x"
    by (simp add: once_world watcher_fields)
  have p: "promise ?x = Some 0" by simp
  note eq = observer_subscribe_joins[OF h p, of None 10 9]
  show "heap twice_world 0 =
     Some ((createQuery id posts)
        \<lparr>promise := Some 0, subscribers := [3, 3], state := start_updater initial_state\<rparr>)"
    unfolding twice_world_def eq by (simp add: watcher_fields)
  show "listener twice_world 3 = Some 9"
    unfolding twice_world_def eq by (simp add: watcher_fields)
  show "timers twice_world = []"
    unfolding twice_world_def eq by (simp add: posts_query_fields once_world)
  show "next_timer twice_world = 0"
    unfolding twice_world_def eq by (simp add: once_world)
  show "queries twice_world = [0]"
    unfolding twice_world_def eq by (simp add: once_world)
qed

text \<open>
  C7. The claim fails for an Observer that is in the subscriber array more than once:
  \<open>subscribe\<close> pushes without looking for the Observer in the array, so after two
  calls of \<open>observer.subscribe\<close> the array holds the Observer twice, and one \<open>setState\<close>
  calls its \<open>notify\<close> twice in the same round.
\<close>

theorem notified_twice:
  "map_option subscribers (heap twice_world 0) = Some [3, 3] \<and>
   notification_round 0 settle_updater twice_world = [(3, Some 9), (3, Some 9)] \<and>
   count_list (map fst (notification_round 0 settle_updater twice_world)) 3 = 2"
  by (simp add: notification_round_Some[OF twice_world_fields(1)] twice_world_fields)

text \<open>
  The claim also fails for an Observer that is unsubscribed during a round: the
  unsubscribe closure binds \<open>query.subscribers\<close> to a new array, and \<open>forEach\<close> goes on
  over the array it started with. Here the callback of Observer \<open>3\<close> calls the
  unsubscribe closure of Observer \<open>4\<close>; Observer \<open>4\<close> is notified in that round although
  it is no longer subscribed.
\<close>

lemma notified_after_unsubscribe:
  "map_option (\<lambda>(c, st). (c, notified (fst st), map_option subscribers (heap (fst st) 0)))
     (setState_live 1 0 settle_updater (pair_world, [[CallUnsubscribe 5 0 4]])) =
   Some (Normal, [(3, Some 8), (4, Some 9)], Some [3])"
  by code_simp

text \<open>
  With listeners that return at once, a round is the subscriber array in array order,
  one call of \<open>notify\<close> for each entry, and two calls of \<open>setState\<close> make two rounds.
\<close>

lemma setState_round:
  "heap w q = Some x \<Longrightarrow>
     state_of q (setState q u w) = Some (u (state x)) \<and>
     notified (setState q u w) = notified w @ notification_round q u w \<and>
     notification_round q u w = map (\<lambda>s. (s, listener w s)) (subscribers x) \<and>
     count_list (map fst (notification_round q u w)) s = count_list (subscribers x) s \<and>
     (distinct (subscribers x) \<and> s \<in> set (subscribers x) \<longrightarrow>
        count_list (map fst (notification_round q u w)) s = 1) \<and>
     (s \<notin> set (subscribers x) \<longrightarrow>
        count_list (map fst (notification_round q u w)) s = 0) \<and>
     count_list (map fst (notification_round q u (unsubscribe now q s w))) s = 0 \<and>
     notified (setState q u' (setState q u w)) =
       notified w @ notification_round q u w @ notification_round q u w"
proof -
  assume h: "heap w q = Some x"
  have fsts: "map fst (map (\<lambda>s. (s, listener w s)) ss) = ss" for ss
    by (induction ss) simp_all
  have r: "notification_round q u w = map (\<lambda>s. (s, listener w s)) (subscribers x)"
    by (rule notification_round_Some[OF h])
  have once: "count_list ss s = 1" if "distinct ss" "s \<in> set ss" for ss :: "oref list"
    using that by (induction ss) auto
  obtain y where y: "heap (unsubscribe now q s w) q = Some y"
    "subscribers y = filter (\<lambda>d. d \<noteq> s) (subscribers x)"
    using unsubscribe_subscribers[OF h, of now s] by auto
  have gone: "count_list (map fst (notification_round q u (unsubscribe now q s w))) s = 0"
    by (simp add: notification_round_Some[OF y(1)] y(2) comp_def)
  have h2: "heap (setState q u w) q = Some (x\<lparr>state := u (state x)\<rparr>)"
    by (simp add: setState_Some[OF h])
  have two: "notified (setState q u' (setState q u w)) =
       notified w @ notification_round q u w @ notification_round q u w"
    by (simp add: setState_Some[OF h2] r) (simp add: setState_Some[OF h])
  show ?thesis
    using gone two
    by (simp add: r fsts once setState_Some[OF h] state_of_def comp_def)
qed


subsection \<open>Addressing\<close>

lemma getQuery_registered:
  "registered (sf (opt_queryKey opts)) w = Some q \<Longrightarrow> getQuery sf opts w = (q, w)"
  by (simp add: getQuery_def registered_def)

lemma getQuery_fresh:
  "registered (sf (opt_queryKey opts)) w = None \<Longrightarrow>
   getQuery sf opts w =
     (next_ref w, w\<lparr>heap := (heap w)(next_ref w \<mapsto> createQuery sf opts),
                    next_ref := Suc (next_ref w),
                    queries := queries w @ [next_ref w]\<rparr>)"
  by (simp add: getQuery_def registered_def Let_def)

lemma find_appended:
  "find P xs = None \<Longrightarrow> (\<And>d. d \<noteq> n \<Longrightarrow> P' d = P d) \<Longrightarrow> P' n \<Longrightarrow>
   find P' (xs @ [n]) = Some n"
  by (induction xs) (auto split: if_splits)

lemma registered_after_getQuery:
  "registered (sf (opt_queryKey opts)) (snd (getQuery sf opts w)) =
     Some (fst (getQuery sf opts w))"
proof (cases "registered (sf (opt_queryKey opts)) w")
  case (Some q)
  then show ?thesis by (simp add: getQuery_registered)
next
  case None
  have "find (\<lambda>d. map_option queryHash
            (((heap w)(next_ref w \<mapsto> createQuery sf opts)) d) = Some (sf (opt_queryKey opts)))
          (queries w @ [next_ref w]) = Some (next_ref w)"
    by (rule find_appended[OF None[unfolded registered_def]])
       (simp_all add: createQuery_def)
  then show ?thesis
    by (simp add: getQuery_fresh[where sf = sf and opts = opts, OF None] registered_def)
qed

lemma getQuery_result:
  "map_option queryHash (heap (snd (getQuery sf opts w)) (fst (getQuery sf opts w))) =
     Some (sf (opt_queryKey opts))"
  "fst (getQuery sf opts w) \<in> set (queries (snd (getQuery sf opts w)))"
proof -
  have r: "registered (sf (opt_queryKey opts)) (snd (getQuery sf opts w)) =
      Some (fst (getQuery sf opts w))"
    by (rule registered_after_getQuery)
  show "map_option queryHash (heap (snd (getQuery sf opts w)) (fst (getQuery sf opts w))) =
     Some (sf (opt_queryKey opts))"
    using r by (auto simp add: registered_def find_Some_iff)
  show "fst (getQuery sf opts w) \<in> set (queries (snd (getQuery sf opts w)))"
    using r by (auto simp add: registered_def find_Some_iff)
qed

lemma refs_allocated_getQuery:
  "refs_allocated w \<Longrightarrow> refs_allocated (snd (getQuery sf opts w))"
  by (cases "registered (sf (opt_queryKey opts)) w")
     (auto simp add: getQuery_fresh getQuery_registered refs_allocated_def list_all_iff)

lemma refs_allocated_new_world: "refs_allocated new_world"
  by (simp add: refs_allocated_def new_world_def)

text \<open>Every event keeps the references of the registry below the next one.\<close>

lemma queries_modify: "queries (modify q f w) = queries w"
  by (simp add: modify_def split: option.splits)

lemma queries_setState: "queries (setState q u w) = queries w"
  by (simp add: setState_def split: option.splits)

lemma queries_fetch_try: "queries (snd (fetch_try q body w)) = queries (snd (body w))"
  by (simp add: fetch_try_def try_catch_finally_def queries_setState queries_modify
      Let_def case_prod_unfold split: completion.splits)

lemma queries_fetch: "queries (snd (fetch t q w)) = queries w"
  by (simp add: fetch_def Let_def queries_setState queries_modify queries_fetch_try
      case_prod_unfold split: option.splits)

lemma queries_settle: "queries (settle h now r w) = queries w"
  by (simp add: settle_def Let_def queries_fetch_try after_await_def queries_setState
      case_prod_unfold split: option.splits sum.splits)

lemma queries_subscribe: "queries (subscribe q s w) = queries w"
  by (simp add: subscribe_def unscheduleGC_def clearTimeout_def queries_modify
      split: option.splits)

lemma queries_unsubscribe: "queries (unsubscribe now q s w) = queries w"
  by (simp add: unsubscribe_def scheduleGC_def Let_def queries_modify split: option.splits)

lemma queries_fire: "set (queries (fire t w)) \<subseteq> set (queries w)"
  by (auto simp add: fire_def split: option.splits)

lemma queries_advance: "set (queries (advance now w)) \<subseteq> set (queries w)"
proof -
  have "set (queries (fold fire ts v)) \<subseteq> set (queries v)"
    for ts and v :: "('a, 'b, 'c, 'd) world"
  proof (induction ts arbitrary: v)
    case Nil
    show ?case by simp
  next
    case (Cons t ts)
    show ?case using Cons.IH[of "fire t v"] queries_fire[of t v] by auto
  qed
  then show ?thesis by (simp add: advance_def)
qed

lemma refs_allocated_step: "refs_allocated w \<Longrightarrow> refs_allocated (step sf ev w)"
proof (cases ev)
  case (GetQuery opts)
  assume "refs_allocated w"
  then show ?thesis using GetQuery by (simp add: refs_allocated_getQuery)
next
  case (CreateObserver s opts)
  assume "refs_allocated w"
  then have "refs_allocated (snd (getQuery sf (opts\<lparr>opt_staleTime := None\<rparr>) w))"
    by (rule refs_allocated_getQuery)
  then show ?thesis
    using CreateObserver
    by (simp add: createQueryObserver_def Let_def case_prod_unfold refs_allocated_def)
next
  case (TimerRuns t)
  assume "refs_allocated w"
  then show ?thesis
    using TimerRuns queries_fire[of t w]
    by (auto simp add: refs_allocated_def list_all_iff next_ref_fire)
next
  case (ClockReaches now)
  assume "refs_allocated w"
  then show ?thesis
    using ClockReaches queries_advance[of now w]
    by (auto simp add: refs_allocated_def list_all_iff next_ref_advance)
qed (simp_all add: refs_allocated_def queries_fetch next_ref_fetch queries_settle
      next_ref_settle queries_subscribe next_ref_subscribe queries_unsubscribe
      next_ref_unsubscribe observer_fetch_def observer_subscribe_def split: option.splits)

lemma refs_allocated_run: "refs_allocated w \<Longrightarrow> refs_allocated (run sf evs w)"
  unfolding run_def by (induction evs arbitrary: w) (simp_all add: refs_allocated_step)

text \<open>
  C6. A lookup right after a lookup with the same canonical form returns the same
  reference and changes nothing, whatever function and \<open>cacheTime\<close> it passes; a lookup
  right after a lookup with a different canonical form returns a different reference.
  More generally, while the registry holds a Query for a canonical form, \<open>getQuery\<close>
  returns that Query and leaves the program state as it is, so the Query keeps the
  function and the \<open>cacheTime\<close> it was created with; when the registry holds none, a
  new Query is created from the options passed and pushed.
\<close>

theorem getQuery_addressing:
  "(sf (opt_queryKey o2) = sf (opt_queryKey o1) \<longrightarrow>
      getQuery sf o2 (snd (getQuery sf o1 w)) = getQuery sf o1 w) \<and>
   (sf (opt_queryKey o2) \<noteq> sf (opt_queryKey o1) \<and> refs_allocated w \<longrightarrow>
      fst (getQuery sf o2 (snd (getQuery sf o1 w))) \<noteq> fst (getQuery sf o1 w)) \<and>
   (registered (sf (opt_queryKey o2)) w = Some q \<longrightarrow> getQuery sf o2 w = (q, w)) \<and>
   (registered (sf (opt_queryKey o1)) w = None \<and> sf (opt_queryKey o2) = sf (opt_queryKey o1) \<longrightarrow>
      heap (snd (getQuery sf o2 (snd (getQuery sf o1 w))))
           (fst (getQuery sf o2 (snd (getQuery sf o1 w)))) = Some (createQuery sf o1) \<and>
      queries (snd (getQuery sf o2 (snd (getQuery sf o1 w)))) = queries w @ [next_ref w])"
proof (intro conjI impI)
  assume eq: "sf (opt_queryKey o2) = sf (opt_queryKey o1)"
  have "registered (sf (opt_queryKey o2)) (snd (getQuery sf o1 w)) = Some (fst (getQuery sf o1 w))"
    unfolding eq by (rule registered_after_getQuery)
  then show same: "getQuery sf o2 (snd (getQuery sf o1 w)) = getQuery sf o1 w"
    by (simp add: getQuery_registered)
next
  assume a: "sf (opt_queryKey o2) \<noteq> sf (opt_queryKey o1) \<and> refs_allocated w"
  let ?q1 = "fst (getQuery sf o1 w)" and ?w1 = "snd (getQuery sf o1 w)"
  have h1: "map_option queryHash (heap ?w1 ?q1) = Some (sf (opt_queryKey o1))"
    by (rule getQuery_result)
  have "?q1 \<in> set (queries ?w1)" by (rule getQuery_result)
  moreover have "refs_allocated ?w1" using a by (simp add: refs_allocated_getQuery)
  ultimately have below: "?q1 < next_ref ?w1"
    by (simp add: refs_allocated_def list_all_iff)
  show "fst (getQuery sf o2 ?w1) \<noteq> ?q1"
  proof (cases "registered (sf (opt_queryKey o2)) ?w1")
    case None
    then show ?thesis using below by (simp add: getQuery_fresh)
  next
    case (Some q2)
    then have "map_option queryHash (heap ?w1 q2) = Some (sf (opt_queryKey o2))"
      by (auto simp add: registered_def find_Some_iff)
    with h1 a have "q2 \<noteq> ?q1" by auto
    then show ?thesis using Some by (simp add: getQuery_registered)
  qed
next
  assume "registered (sf (opt_queryKey o2)) w = Some q"
  then show "getQuery sf o2 w = (q, w)" by (rule getQuery_registered)
next
  assume a: "registered (sf (opt_queryKey o1)) w = None \<and>
      sf (opt_queryKey o2) = sf (opt_queryKey o1)"
  then have "registered (sf (opt_queryKey o2)) (snd (getQuery sf o1 w)) =
      Some (fst (getQuery sf o1 w))"
    using registered_after_getQuery[of sf o1 w] by simp
  then have same: "getQuery sf o2 (snd (getQuery sf o1 w)) = getQuery sf o1 w"
    by (simp add: getQuery_registered)
  show "heap (snd (getQuery sf o2 (snd (getQuery sf o1 w))))
           (fst (getQuery sf o2 (snd (getQuery sf o1 w)))) = Some (createQuery sf o1)"
    unfolding same using a by (simp add: getQuery_fresh)
  show "queries (snd (getQuery sf o2 (snd (getQuery sf o1 w)))) = queries w @ [next_ref w]"
    unfolding same using a by (simp add: getQuery_fresh)
qed

theorem getQuery_addressing_witness:
  "getQuery id posts_again (snd (getQuery id posts (new_world :: (string, string, nat, string) world))) =
     getQuery id posts new_world \<and>
   fst (getQuery id post_1 (snd (getQuery id posts (new_world :: (string, string, nat, string) world)))) \<noteq>
     fst (getQuery id posts (new_world :: (string, string, nat, string) world)) \<and>
   getQuery id posts_again posts_world = (0, posts_world) \<and>
   map_option (\<lambda>x. (queryFn x, cacheTime x)) (heap (snd (getQuery id posts_again posts_world)) 0) =
     Some (7, 6000)"
proof -
  have k: "opt_queryKey posts_again = opt_queryKey posts"
    "opt_queryKey post_1 \<noteq> opt_queryKey posts"
    by (simp_all add: posts_again_def post_1_def posts_def)
  have r: "registered (opt_queryKey posts) posts_world = Some 0"
    by (simp add: registered_def posts_world_fields posts_world_heap createQuery_def
        posts_def)
  show ?thesis
    using getQuery_addressing[of id posts_again posts
        "new_world :: (string, string, nat, string) world" 0]
      getQuery_addressing[of id post_1 posts
        "new_world :: (string, string, nat, string) world" 0]
      getQuery_addressing[of id posts_again posts posts_world 0]
    by (simp add: k r refs_allocated_new_world posts_world_heap posts_query_fields)
qed


subsection \<open>Garbage collection\<close>

lemma unsubscribe_last:
  assumes "heap w q = Some x" "filter (\<lambda>d. d \<noteq> s) (subscribers x) = []"
  shows "unsubscribe now q s w =
     w\<lparr>heap := (heap w)(q \<mapsto> x\<lparr>subscribers := [], gcTimeout := Some (next_timer w)\<rparr>),
       timers := timers w @ [(next_timer w, now + cacheTime x, q)],
       next_timer := Suc (next_timer w)\<rparr>"
  using assms
  by (cases w, cases x) (simp add: unsubscribe_def scheduleGC_def modify_def Let_def)

lemma unsubscribe_others:
  assumes "heap w q = Some x" "filter (\<lambda>d. d \<noteq> s) (subscribers x) \<noteq> []"
  shows "unsubscribe now q s w =
     w\<lparr>heap := (heap w)(q \<mapsto> x\<lparr>subscribers := filter (\<lambda>d. d \<noteq> s) (subscribers x)\<rparr>)\<rparr>"
  using assms
  by (cases w, cases x) (simp add: unsubscribe_def scheduleGC_def modify_def Let_def)

lemma left_world_fields:
  "heap left_world 0 =
     Some ((createQuery id posts)
        \<lparr>promise := Some 0, subscribers := [], gcTimeout := Some 1,
         state := start_updater initial_state\<rparr>)"
  "timers left_world = [(0, 7000, 0), (1, 8000, 0)]"
  "queries left_world = [0]"
proof -
  let ?x = "(createQuery id posts)
        \<lparr>promise := Some 0, subscribers := [3, 3], state := start_updater initial_state\<rparr>"
  let ?a = "unsubscribe 1000 0 3 twice_world"
  let ?y = "?x\<lparr>subscribers := [], gcTimeout := Some (next_timer twice_world)\<rparr>"
  have e1: "filter (\<lambda>d. d \<noteq> 3) (subscribers ?x) = []" by simp
  note a = unsubscribe_last[OF twice_world_fields(1) e1, of 1000]
  have h: "heap ?a 0 = Some ?y" unfolding a by simp
  have e2: "filter (\<lambda>d. d \<noteq> 3) (subscribers ?y) = []" by simp
  note b = unsubscribe_last[OF h e2, of 2000]
  have ta: "timers ?a = [(0, 7000, 0)]" "next_timer ?a = 1" "queries ?a = [0]"
    unfolding a by (simp_all add: twice_world_fields posts_query_fields)
  show "heap left_world 0 =
     Some ((createQuery id posts)
        \<lparr>promise := Some 0, subscribers := [], gcTimeout := Some 1,
         state := start_updater initial_state\<rparr>)"
    unfolding left_world_def b by (simp add: ta)
  show "timers left_world = [(0, 7000, 0), (1, 8000, 0)]"
    unfolding left_world_def b by (simp add: ta posts_query_fields)
  show "queries left_world = [0]"
    unfolding left_world_def b by (simp add: ta)
qed

lemma rejoined_world_fields:
  "heap rejoined_world 0 =
     Some ((createQuery id posts)
        \<lparr>promise := Some 0, subscribers := [4], gcTimeout := Some 1,
         state := start_updater initial_state\<rparr>)"
  "timers rejoined_world = [(0, 7000, 0)]"
  "queries rejoined_world = [0]"
proof -
  let ?x = "(createQuery id posts)
        \<lparr>promise := Some 0, subscribers := [], gcTimeout := Some 1,
         state := start_updater initial_state\<rparr>"
  have h: "heap left_world (query_of (watcher 4)) = Some ?x"
    by (simp add: watcher_fields left_world_fields)
  have p: "promise ?x = Some 0" by simp
  note eq = observer_subscribe_joins[OF h p, of None 3000 5]
  show "heap rejoined_world 0 =
     Some ((createQuery id posts)
        \<lparr>promise := Some 0, subscribers := [4], gcTimeout := Some 1,
         state := start_updater initial_state\<rparr>)"
    unfolding rejoined_world_def eq by (simp add: watcher_fields)
  show "timers rejoined_world = [(0, 7000, 0)]"
    unfolding rejoined_world_def eq by (simp add: left_world_fields)
  show "queries rejoined_world = [0]"
    unfolding rejoined_world_def eq by (simp add: left_world_fields)
qed

text \<open>
  What holds of the timers: \<open>unscheduleGC\<close> is idempotent; \<open>subscribe\<close> clears the
  timer whose handle the Query holds, so when no other timer of the Query is pending
  none is pending afterwards, and the Query then stays in the registry while the clock
  moves on; the unsubscribe that empties the subscriber array schedules a timer, and
  once the clock has reached \<open>cacheTime\<close> after it the Query is out of the registry.
\<close>

lemma unscheduleGC_idem: "unscheduleGC q (unscheduleGC q w) = unscheduleGC q w"
  by (simp add: unscheduleGC_def clearTimeout_def split: option.splits)

lemma subscribe_clears_held:
  "heap w q = Some x \<Longrightarrow> gcTimeout x = Some t \<Longrightarrow> t \<notin> fst ` set (timers (subscribe q s w))"
  by (auto simp add: subscribe_Some)

lemma subscribe_clears_only_timer:
  assumes "heap w q = Some x"
    and "\<And>i due. (i, due, q) \<in> set (timers w) \<Longrightarrow> gcTimeout x = Some i"
  shows "(i, due, q) \<notin> set (timers (subscribe q s w))"
  using assms by (auto simp add: subscribe_Some split: option.splits)

lemma fire_removes:
  "map_of (timers w) t = Some (due, q) \<Longrightarrow> q \<notin> set (queries (fire t w))"
  by (simp add: fire_def)

lemma fire_timers: "set (timers (fire t w)) \<subseteq> set (timers w)"
  by (auto simp add: fire_def split: option.splits)

lemma fire_keeps:
  assumes "\<And>i due. (i, due, q) \<notin> set (timers w)" "q \<in> set (queries w)"
  shows "q \<in> set (queries (fire t w))"
proof (cases "map_of (timers w) t")
  case None
  then show ?thesis using assms(2) by (simp add: fire_def)
next
  case (Some a)
  obtain due q' where a: "a = (due, q')" by (cases a)
  from Some have "(t, due, q') \<in> set (timers w)" unfolding a by (rule map_of_SomeD)
  then have "q' \<noteq> q" using assms(1) by auto
  then show ?thesis using Some a assms(2) by (simp add: fire_def)
qed

lemma fold_fire_keeps:
  "(\<And>i due. (i, due, q) \<notin> set (timers w)) \<Longrightarrow> q \<in> set (queries w) \<Longrightarrow>
   q \<in> set (queries (fold fire ts w))"
proof (induction ts arbitrary: w)
  case Nil
  then show ?case by simp
next
  case (Cons t ts)
  have "q \<in> set (queries (fire t w))"
    using Cons.prems by (intro fire_keeps) auto
  moreover have "(i, due, q) \<notin> set (timers (fire t w))" for i due
    using fire_timers[of t w] Cons.prems(1) by auto
  ultimately show ?case using Cons.IH[of "fire t w"] by simp
qed

lemma advance_keeps:
  "(\<And>i due. (i, due, q) \<notin> set (timers w)) \<Longrightarrow> q \<in> set (queries w) \<Longrightarrow>
   q \<in> set (queries (advance now w))"
  unfolding advance_def by (rule fold_fire_keeps)

lemma map_of_fire: "t' \<noteq> t \<Longrightarrow> map_of (timers (fire t' w)) t = map_of (timers w) t"
proof -
  have "map_of (filter (\<lambda>p. fst p \<noteq> t') xs) t = map_of xs t" if "t' \<noteq> t"
    for xs :: "(timer \<times> int \<times> qref) list"
    using that by (induction xs) auto
  then show "t' \<noteq> t \<Longrightarrow> ?thesis"
    by (simp add: fire_def split: option.splits)
qed

lemma map_of_fold_fire:
  "t \<notin> set ts \<Longrightarrow> map_of (timers (fold fire ts w)) t = map_of (timers w) t"
  by (induction ts arbitrary: w) (auto simp add: map_of_fire)

lemma expires:
  assumes h: "heap w q = Some x"
    and last: "filter (\<lambda>d. d \<noteq> s) (subscribers x) = []"
    and fresh: "\<And>p. p \<in> set (timers w) \<Longrightarrow> fst p < next_timer w"
    and late: "now + cacheTime x \<le> t"
  shows "q \<notin> set (queries (advance t (unsubscribe now q s w)))"
proof -
  let ?n = "next_timer w"
  let ?w1 = "unsubscribe now q s w"
  let ?ids = "map fst (filter (\<lambda>(i, due, q). due \<le> t) (timers w))"
  have tm: "timers ?w1 = timers w @ [(?n, now + cacheTime x, q)]"
    by (simp add: unsubscribe_last[OF h last])
  have notin: "?n \<notin> set ?ids" using fresh by fastforce
  have "map_of (timers w) ?n = None"
    using fresh by (fastforce simp add: map_of_eq_None_iff)
  then have m: "map_of (timers ?w1) ?n = Some (now + cacheTime x, q)"
    by (simp add: tm map_add_def)
  have "advance t ?w1 = fire ?n (fold fire ?ids ?w1)"
    using late by (simp add: advance_def tm)
  moreover have "map_of (timers (fold fire ?ids ?w1)) ?n = Some (now + cacheTime x, q)"
    using map_of_fold_fire[OF notin, of ?w1] m by simp
  ultimately show ?thesis by (simp add: fire_removes)
qed

text \<open>
  C3. The claim fails when \<open>scheduleGC\<close> runs while a timer of the Query is already
  pending: \<open>setTimeout\<close> adds a second task and \<open>gcTimeout\<close> keeps only the new handle,
  so the first task can no longer be cleared. Here one Observer subscribed twice and
  each of its two unsubscribe closures ran once: the first empties the array and
  schedules timer \<open>0\<close> (due at 7000), the second finds the array empty and schedules
  timer \<open>1\<close> (due at 8000). An Observer that subscribes at time 3000 clears timer \<open>1\<close>
  only. At time 7000 timer \<open>0\<close> runs and the Query, which has had a subscriber since
  3000, is removed from the registry.
\<close>

theorem gc_removes_subscribed_query:
  "timers left_world = [(0, 7000, 0), (1, 8000, 0)] \<and>
   map_option gcTimeout (heap left_world 0) = Some (Some 1) \<and>
   map_option subscribers (heap rejoined_world 0) = Some [4] \<and>
   timers rejoined_world = [(0, 7000, 0)] \<and>
   queries rejoined_world = [0] \<and>
   queries (advance 7000 rejoined_world) = [] \<and>
   map_option subscribers (heap (advance 7000 rejoined_world) 0) = Some [4]"
  by (simp add: left_world_fields rejoined_world_fields advance_def fire_def)


subsection \<open>Listeners that call back or throw\<close>












































end
